theory Spec2Isabelle
  imports Complex_Main "HOL-Library.Char_ord" "HOL-Library.List_Lexorder"
begin

section \<open>The row store (\<open>create_schema\<close> in data.generator.py)\<close>

text \<open>
  The three tables of \<open>create_schema\<close>, one record per row. \<open>TEXT\<close> columns are strings;
  \<open>REAL\<close> columns, which hold Python floats, are modelled as exact reals (IEEE rounding error
  is outside the model). \<open>week_ending\<close> holds the text that \<open>strftime('%Y-%m-%d')\<close> produces,
  which SQLite keeps as text and compares bytewise, that is lexicographically. The surrogate
  key \<open>progress.id\<close> is read by no query and is left out.
\<close>

record workstream_row =
  ws_id :: string
  name :: string
  owner :: string
  budget :: real
  complexity :: string

record progress_row =
  week_ending :: string
  p_ws_id :: string
  planned_pct :: real
  actual_pct :: real
  budget_spent :: real
  schedule_variance :: real
  cpi :: real

record change_request_row =
  cr_id :: string
  cr_ws_id :: string
  date_raised :: string
  title :: string
  status :: string
  cost_impact :: real
  time_impact_days :: int

record db =
  workstreams :: "workstream_row list"
  progress :: "progress_row list"
  change_requests :: "change_request_row list"

section \<open>SQL aggregates\<close>

text \<open>
  \<open>MAX\<close>, \<open>SUM\<close> and \<open>AVG\<close> over no rows are \<open>NULL\<close> (\<open>None\<close>); \<open>COUNT\<close> over no rows
  is 0. A comparison with \<open>NULL\<close> is never true.
\<close>

definition sql_max :: "'a::linorder list \<Rightarrow> 'a option" where
  "sql_max xs = (case xs of [] \<Rightarrow> None | x # ys \<Rightarrow> Some (fold max ys x))"

definition sql_sum :: "real list \<Rightarrow> real option" where
  "sql_sum xs = (if xs = [] then None else Some (sum_list xs))"

definition sql_avg :: "real list \<Rightarrow> real option" where
  "sql_avg xs = (if xs = [] then None else Some (sum_list xs / real (length xs)))"

definition coalesce :: "'a option \<Rightarrow> 'a \<Rightarrow> 'a" where
  "coalesce v dflt = (case v of None \<Rightarrow> dflt | Some x \<Rightarrow> x)"

text \<open>\<open>(SELECT MAX(week_ending) FROM progress)\<close>, the subquery all three latest-week views share.\<close>

definition latest_week :: "db \<Rightarrow> string option" where
  "latest_week d = sql_max (map week_ending (progress d))"

text \<open>\<open>WHERE week_ending = (SELECT MAX(week_ending) FROM progress)\<close>\<close>

definition at_latest :: "db \<Rightarrow> progress_row \<Rightarrow> bool" where
  "at_latest d p = (Some (week_ending p) = latest_week d)"

section \<open>The dashboard queries (\<open>dashboard\<close> in app.py)\<close>

subsection \<open>KPI cards\<close>

record kpi_row =
  total_spend :: "real option"
  avg_cpi :: "real option"
  active_risks :: nat

definition kpi_query :: "db \<Rightarrow> kpi_row" where
  "kpi_query d =
     (let rows = filter (at_latest d) (progress d)
      in \<lparr> total_spend = sql_sum (map budget_spent rows),
           avg_cpi = sql_avg (map cpi rows),
           active_risks = length (filter (\<lambda>c. status c = ''Approved'') (change_requests d)) \<rparr>)"

subsection \<open>Project status grid\<close>

record status_row =
  s_ws_id :: string
  s_name :: string
  s_owner :: string
  s_actual_pct :: real
  s_planned_pct :: real
  s_schedule_variance :: real
  s_budget_spent :: real
  s_cpi :: real

text \<open>\<open>FROM workstreams w JOIN progress p ON w.ws_id = p.ws_id WHERE p.week_ending = ...\<close>\<close>

definition status_join :: "db \<Rightarrow> (workstream_row \<times> progress_row) list" where
  "status_join d =
     concat (map (\<lambda>w. map (\<lambda>p. (w, p))
                        (filter (\<lambda>p. ws_id w = p_ws_id p \<and> at_latest d p) (progress d)))
                 (workstreams d))"

definition status_select :: "workstream_row \<times> progress_row \<Rightarrow> status_row" where
  "status_select wp =
     (case wp of (w, p) \<Rightarrow>
        \<lparr> s_ws_id = ws_id w, s_name = name w, s_owner = owner w,
          s_actual_pct = actual_pct p, s_planned_pct = planned_pct p,
          s_schedule_variance = schedule_variance p,
          s_budget_spent = budget_spent p, s_cpi = cpi p \<rparr>)"

text \<open>
  \<open>ORDER BY p.schedule_variance ASC\<close>. SQL leaves the order of rows with equal keys open;
  the model takes the stable insertion sort.
\<close>

definition status_query :: "db \<Rightarrow> status_row list" where
  "status_query d = map status_select (sort_key (\<lambda>wp. schedule_variance (snd wp)) (status_join d))"

subsection \<open>Line chart\<close>

record chart_series =
  actual :: "real list"
  planned :: "real list"

definition history_query :: "db \<Rightarrow> progress_row list" where
  "history_query d = sort_key week_ending (progress d)"

text \<open>\<open>sorted(list(set([row['week_ending'] for row in history_rows])))\<close>\<close>

definition chart_labels :: "progress_row list \<Rightarrow> string list" where
  "chart_labels history_rows = sort (remdups (map week_ending history_rows))"

text \<open>
  The loop body over \<open>history_rows\<close>: the dict \<open>chart_datasets\<close> is an association list in
  insertion order, a missing key is appended with two empty lists, then both lists grow by one.
\<close>

fun chart_append :: "progress_row \<Rightarrow> (string \<times> chart_series) list \<Rightarrow> (string \<times> chart_series) list" where
  "chart_append row [] =
     [(p_ws_id row, \<lparr> actual = [actual_pct row], planned = [planned_pct row] \<rparr>)]"
| "chart_append row ((k, s) # rest) =
     (if k = p_ws_id row
      then (k, \<lparr> actual = actual s @ [actual_pct row], planned = planned s @ [planned_pct row] \<rparr>) # rest
      else (k, s) # chart_append row rest)"

definition chart_datasets :: "progress_row list \<Rightarrow> (string \<times> chart_series) list" where
  "chart_datasets history_rows = fold chart_append history_rows []"

subsection \<open>Bubble chart\<close>

record bubble_row =
  b_name :: string
  b_cr_count :: nat
  b_total_cr_cost :: real
  b_schedule_variance :: real

text \<open>\<open>LEFT JOIN change_requests cr ON w.ws_id = cr.ws_id AND cr.status = 'Approved'\<close>:
  a workstream that matches no change request keeps one row, with \<open>cr\<close> all \<open>NULL\<close>.\<close>

definition approved_crs :: "db \<Rightarrow> workstream_row \<Rightarrow> change_request_row list" where
  "approved_crs d w =
     filter (\<lambda>c. ws_id w = cr_ws_id c \<and> status c = ''Approved'') (change_requests d)"

definition left_join_cr :: "db \<Rightarrow> workstream_row \<Rightarrow> change_request_row option list" where
  "left_join_cr d w = (if approved_crs d w = [] then [None] else map Some (approved_crs d w))"

text \<open>\<open>JOIN progress p ON w.ws_id = p.ws_id WHERE p.week_ending = ...\<close>, on top of the left join.\<close>

definition latest_snapshots :: "db \<Rightarrow> workstream_row \<Rightarrow> progress_row list" where
  "latest_snapshots d w = filter (\<lambda>p. ws_id w = p_ws_id p \<and> at_latest d p) (progress d)"

definition bubble_join_ws ::
  "db \<Rightarrow> workstream_row \<Rightarrow> (workstream_row \<times> change_request_row option \<times> progress_row) list" where
  "bubble_join_ws d w =
     concat (map (\<lambda>c. map (\<lambda>p. (w, c, p)) (latest_snapshots d w)) (left_join_cr d w))"

definition bubble_join ::
  "db \<Rightarrow> (workstream_row \<times> change_request_row option \<times> progress_row) list" where
  "bubble_join d = concat (map (bubble_join_ws d) (workstreams d))"

text \<open>
  One output row per group of \<open>GROUP BY w.ws_id\<close>. \<open>COUNT(cr.cr_id)\<close> counts the rows whose
  \<open>cr\<close> is not \<open>NULL\<close>, \<open>SUM(cr.cost_impact)\<close> adds over the same rows and is \<open>NULL\<close> when
  there are none. The bare columns \<open>w.name\<close> and \<open>p.schedule_variance\<close> come from one row
  of the group; SQL leaves open which, the model takes the first.
\<close>

fun bubble_group ::
  "(workstream_row \<times> change_request_row option \<times> progress_row) list \<Rightarrow> bubble_row list" where
  "bubble_group [] = []"
| "bubble_group ((w, c, p) # rest) =
     (let crs = concat (map (\<lambda>r. case fst (snd r) of None \<Rightarrow> [] | Some cr \<Rightarrow> [cr]) ((w, c, p) # rest))
      in [\<lparr> b_name = name w,
            b_cr_count = length crs,
            b_total_cr_cost = coalesce (sql_sum (map cost_impact crs)) 0,
            b_schedule_variance = schedule_variance p \<rparr>])"

text \<open>
  \<open>GROUP BY w.ws_id\<close>: SQLite walks the groups in the order of the grouping key, the
  text \<open>ws_id\<close> ascending, whatever the order in which the workstreams were entered.
\<close>

definition bubble_query :: "db \<Rightarrow> bubble_row list" where
  "bubble_query d =
     (let rows = bubble_join d
      in concat (map (\<lambda>k. bubble_group (filter (\<lambda>r. ws_id (fst r) = k) rows))
                     (sort (remdups (map (\<lambda>r. ws_id (fst r)) rows)))))"

text \<open>The Chart.js point \<open>{label, x, y, r}\<close> built from a row of the bubble query.\<close>

record bubble_point =
  pt_label :: string
  pt_x :: nat
  pt_y :: real
  pt_r :: real

definition bubble_data :: "bubble_row list \<Rightarrow> bubble_point list" where
  "bubble_data bubble_rows =
     map (\<lambda>row. \<lparr> pt_label = b_name row, pt_x = b_cr_count row,
                  pt_y = b_schedule_variance row, pt_r = b_total_cr_cost row / 10000 \<rparr>) bubble_rows"

subsection \<open>The whole request\<close>

record dashboard_view =
  kpis :: kpi_row
  projects :: "status_row list"
  view_labels :: "string list"
  view_datasets :: "(string \<times> chart_series) list"
  view_bubbles :: "bubble_point list"

definition dashboard :: "db \<Rightarrow> dashboard_view" where
  "dashboard d =
     \<lparr> kpis = kpi_query d,
       projects = status_query d,
       view_labels = chart_labels (history_query d),
       view_datasets = chart_datasets (history_query d),
       view_bubbles = bubble_data (bubble_query d) \<rparr>"

section \<open>The synthetic history generator (\<open>generate_data\<close> in data.generator.py)\<close>

text \<open>
  Python floats are exact reals here, and the one division whose divisor is not a constant
  raises \<open>ZeroDivisionError\<close> on a zero divisor, as Python's \<open>/\<close> does.
\<close>

datatype py_error = ZeroDivisionError

definition NUM_WEEKS :: nat where
  "NUM_WEEKS = 24"

definition workstreams_data :: "workstream_row list" where
  "workstreams_data =
     [\<lparr> ws_id = ''WS_001'', name = ''Finance (FICO)'', owner = ''Sarah J.'',
        budget = 1500000, complexity = ''High'' \<rparr>,
      \<lparr> ws_id = ''WS_002'', name = ''Supply Chain (MM/SD)'', owner = ''Mike R.'',
        budget = 2200000, complexity = ''High'' \<rparr>,
      \<lparr> ws_id = ''WS_003'', name = ''Human Capital (HXM)'', owner = ''Amit P.'',
        budget = 800000, complexity = ''Medium'' \<rparr>,
      \<lparr> ws_id = ''WS_004'', name = ''Data Migration'', owner = ''Emily W.'',
        budget = 600000, complexity = ''Critical'' \<rparr>,
      \<lparr> ws_id = ''WS_005'', name = ''Analytics (BW/SAC)'', owner = ''John D.'',
        budget = 450000, complexity = ''Medium'' \<rparr>]"

text \<open>
  \<open>random.uniform(a, b)\<close> is \<open>a + (b - a) * random()\<close>, where \<open>random()\<close> lies in
  \<open>[0, 1)\<close>. The generator's source of randomness is a stream \<open>rng\<close> of such draws, read
  in the order of the calls.
\<close>

definition uniform :: "real \<Rightarrow> real \<Rightarrow> real \<Rightarrow> real" where
  "uniform a b u = a + (b - a) * u"

text \<open>\<open>round(v, 2)\<close>: to the nearest hundredth, a tie going to the even neighbour.\<close>

definition round_half_even :: "real \<Rightarrow> int" where
  "round_half_even v =
     (let n = \<lfloor>v\<rfloor>; d = v - of_int n
      in if d < 1 / 2 then n else if 1 / 2 < d then n + 1 else if even n then n else n + 1)"

definition py_round2 :: "real \<Rightarrow> real" where
  "py_round2 v = of_int (round_half_even (v * 100)) / 100"

definition py_div :: "real \<Rightarrow> real \<Rightarrow> py_error + real" where
  "py_div a b = (if b = 0 then Inl ZeroDivisionError else Inr (a / b))"

text \<open>\<open>cpi = round((current_actual/100 * budget) / (current_spend + 1), 2)\<close>, as a function of
  the earned value \<open>current_actual/100 * budget\<close> and the cumulative spend.\<close>

definition cpi_of :: "real \<Rightarrow> real \<Rightarrow> py_error + real" where
  "cpi_of earned_value cumulative_spend =
     (case py_div earned_value (cumulative_spend + 1) of
        Inl e \<Rightarrow> Inl e
      | Inr q \<Rightarrow> Inr (py_round2 q))"

text \<open>The variables of the progress loops: the position in the stream of draws, the three
  running totals, and the list \<open>progress_records\<close>.\<close>

record gen_state =
  rng_pos :: nat
  current_planned :: real
  current_actual :: real
  current_spend :: real
  progress_records :: "progress_row list"

text \<open>
  The body of \<open>for i in range(NUM_WEEKS)\<close> for the workstream \<open>ws\<close> with budget \<open>bud\<close>.
  \<open>START_DATE\<close> is the clock's \<open>now()\<close> minus 24 weeks, so the calendar enters as the
  parameter \<open>date_str\<close>: \<open>date_str n\<close> is the \<open>'%Y-%m-%d'\<close> text of \<open>START_DATE\<close> plus
  \<open>n\<close> days, and week \<open>i\<close> ends \<open>7 * i\<close> days after \<open>START_DATE\<close>.
\<close>

definition week_step ::
  "(nat \<Rightarrow> string) \<Rightarrow> (nat \<Rightarrow> real) \<Rightarrow> string \<Rightarrow> real \<Rightarrow> nat \<Rightarrow> gen_state \<Rightarrow> py_error + gen_state" where
  "week_step date_str rng ws bud i st =
     (let week_str = date_str (7 * i);
          increment_plan = 100 / real NUM_WEEKS;
          planned' = min 100 (current_planned st + increment_plan);
          u1 = rng (rng_pos st);
          u2 = rng (rng_pos st + 1);
          increment_actual =
            (if ws = ''WS_002'' then increment_plan * uniform 0.3 0.8 u1
             else if ws = ''WS_001'' then increment_plan * uniform 0.95 1.05 u1
             else increment_plan * uniform 0.8 1.0 u1);
          spend_rate =
            (if ws = ''WS_002'' then (bud / real NUM_WEEKS) * uniform 1.1 1.5 u2
             else if ws = ''WS_001'' then (bud / real NUM_WEEKS) * uniform 0.9 1.1 u2
             else (bud / real NUM_WEEKS) * uniform 0.9 1.1 u2);
          actual' = min 100 (current_actual st + increment_actual);
          spend' = current_spend st + spend_rate;
          variance = py_round2 (actual' - planned')
      in case cpi_of (actual' / 100 * bud) spend' of
           Inl e \<Rightarrow> Inl e
         | Inr c \<Rightarrow>
             Inr \<lparr> rng_pos = rng_pos st + 2,
                   current_planned = planned',
                   current_actual = actual',
                   current_spend = spend',
                   progress_records = progress_records st @
                     [\<lparr> week_ending = week_str, p_ws_id = ws,
                        planned_pct = py_round2 planned',
                        actual_pct = py_round2 actual',
                        budget_spent = py_round2 spend',
                        schedule_variance = variance, cpi = c \<rparr>] \<rparr>)"

fun week_loop ::
  "(nat \<Rightarrow> string) \<Rightarrow> (nat \<Rightarrow> real) \<Rightarrow> string \<Rightarrow> real \<Rightarrow> nat list \<Rightarrow> gen_state \<Rightarrow> py_error + gen_state" where
  "week_loop date_str rng ws bud [] st = Inr st"
| "week_loop date_str rng ws bud (i # rest) st =
     (case week_step date_str rng ws bud i st of
        Inl e \<Rightarrow> Inl e
      | Inr st' \<Rightarrow> week_loop date_str rng ws bud rest st')"

text \<open>\<open>for ws in workstreams_data\<close>: the three totals start again at 0 for each workstream.\<close>

fun ws_loop ::
  "(nat \<Rightarrow> string) \<Rightarrow> (nat \<Rightarrow> real) \<Rightarrow> workstream_row list \<Rightarrow> gen_state \<Rightarrow> py_error + gen_state" where
  "ws_loop date_str rng [] st = Inr st"
| "ws_loop date_str rng (w # rest) st =
     (case week_loop date_str rng (ws_id w) (budget w) [0..<NUM_WEEKS]
             (st \<lparr> current_planned := 0, current_actual := 0, current_spend := 0 \<rparr>) of
        Inl e \<Rightarrow> Inl e
      | Inr st' \<Rightarrow> ws_loop date_str rng rest st')"

definition generate_progress :: "(nat \<Rightarrow> string) \<Rightarrow> (nat \<Rightarrow> real) \<Rightarrow> py_error + progress_row list" where
  "generate_progress date_str rng =
     (case ws_loop date_str rng workstreams_data
             \<lparr> rng_pos = 0, current_planned = 0, current_actual = 0, current_spend = 0,
               progress_records = [] \<rparr> of
        Inl e \<Rightarrow> Inl e
      | Inr st \<Rightarrow> Inr (progress_records st))"

subsection \<open>Change requests\<close>

text \<open>The decimal text of a number, as an f-string prints it.\<close>

fun str_nat :: "nat \<Rightarrow> string" where
  "str_nat n =
     (if n < 10 then [char_of (48 + n)]
      else str_nat (n div 10) @ [char_of (48 + n mod 10)])"

declare str_nat.simps [simp del]

text \<open>
  \<open>random.randint(a, b)\<close> and \<open>random.choice(xs)\<close> pick an integer of \<open>[a, b]\<close> and an
  element of the non-empty \<open>xs\<close>. The integer draws come from a second stream \<open>bits\<close> of
  arbitrary naturals, reduced into the range; every value of the range is reached.
\<close>

definition randint :: "(nat \<Rightarrow> nat) \<Rightarrow> nat \<Rightarrow> nat \<Rightarrow> nat \<Rightarrow> nat" where
  "randint bits pos a b = a + bits pos mod (b - a + 1)"

definition choice :: "(nat \<Rightarrow> nat) \<Rightarrow> nat \<Rightarrow> 'a list \<Rightarrow> 'a" where
  "choice bits pos xs = xs ! (bits pos mod length xs)"

record cr_state =
  bits_pos :: nat
  cr_counter :: nat
  cr_records :: "change_request_row list"

text \<open>The body of \<open>for _ in range(num_crs)\<close>; the draws are made in the order of the tuple.\<close>

definition cr_step :: "(nat \<Rightarrow> string) \<Rightarrow> (nat \<Rightarrow> nat) \<Rightarrow> string \<Rightarrow> cr_state \<Rightarrow> cr_state" where
  "cr_step date_str bits ws st =
     (let k = bits_pos st;
          cr_date = date_str (randint bits k 0 (NUM_WEEKS * 7))
      in st \<lparr> bits_pos := k + 5,
              cr_counter := cr_counter st + 1,
              cr_records := cr_records st @
                [\<lparr> cr_id = ''CR_'' @ str_nat (cr_counter st),
                   cr_ws_id = ws,
                   date_raised = cr_date,
                   title = ''Change Req #'' @ str_nat (randint bits (k + 1) 1 99),
                   status = choice bits (k + 2) [''Approved'', ''Approved'', ''Rejected'', ''Pending''],
                   cost_impact = real (randint bits (k + 3) 5000 50000),
                   time_impact_days = int (randint bits (k + 4) 1 10) \<rparr>] \<rparr>)"

definition cr_ws :: "(nat \<Rightarrow> string) \<Rightarrow> (nat \<Rightarrow> nat) \<Rightarrow> workstream_row \<Rightarrow> cr_state \<Rightarrow> cr_state" where
  "cr_ws date_str bits w st =
     (let num_crs =
            (if ws_id w = ''WS_002'' then randint bits (bits_pos st) 15 25
             else if ws_id w = ''WS_001'' then randint bits (bits_pos st) 0 3
             else randint bits (bits_pos st) 3 8)
      in (cr_step date_str bits (ws_id w) ^^ num_crs) (st \<lparr> bits_pos := bits_pos st + 1 \<rparr>))"

definition generate_crs :: "(nat \<Rightarrow> string) \<Rightarrow> (nat \<Rightarrow> nat) \<Rightarrow> change_request_row list" where
  "generate_crs date_str bits =
     cr_records (fold (cr_ws date_str bits) workstreams_data
                   \<lparr> bits_pos = 0, cr_counter = 1000, cr_records = [] \<rparr>)"

subsection \<open>Entering rows into the tables\<close>

text \<open>
  The three \<open>INSERT\<close> statements. The schema has no \<open>CHECK\<close> constraint and the generator
  no validation, so a row is stored as it is given. \<open>INSERT OR REPLACE\<close> first deletes the
  row with the same primary key; the progress table's key is its own counter, so there
  \<open>INSERT\<close> only appends.
\<close>

definition insert_or_replace_workstream :: "workstream_row \<Rightarrow> db \<Rightarrow> db" where
  "insert_or_replace_workstream w d =
     d \<lparr> workstreams := filter (\<lambda>v. ws_id v \<noteq> ws_id w) (workstreams d) @ [w] \<rparr>"

definition insert_progress :: "progress_row \<Rightarrow> db \<Rightarrow> db" where
  "insert_progress p d = d \<lparr> progress := progress d @ [p] \<rparr>"

definition insert_or_replace_change_request :: "change_request_row \<Rightarrow> db \<Rightarrow> db" where
  "insert_or_replace_change_request c d =
     d \<lparr> change_requests := filter (\<lambda>v. cr_id v \<noteq> cr_id c) (change_requests d) @ [c] \<rparr>"

definition executemany :: "('a \<Rightarrow> db \<Rightarrow> db) \<Rightarrow> 'a list \<Rightarrow> db \<Rightarrow> db" where
  "executemany stmt rows d = fold stmt rows d"

definition generate_data ::
  "(nat \<Rightarrow> string) \<Rightarrow> (nat \<Rightarrow> real) \<Rightarrow> (nat \<Rightarrow> nat) \<Rightarrow> db \<Rightarrow> py_error + db" where
  "generate_data date_str rng bits d =
     (let d1 = executemany insert_or_replace_workstream workstreams_data d
      in case generate_progress date_str rng of
           Inl e \<Rightarrow> Inl e
         | Inr recs \<Rightarrow>
             Inr (executemany insert_or_replace_change_request (generate_crs date_str bits)
                    (executemany insert_progress recs d1)))"

section \<open>The example fact set\<close>

definition example_db :: db where
  "example_db =
     \<lparr> workstreams =
         [\<lparr> ws_id = ''A'', name = ''A'', owner = ''a'', budget = 2000, complexity = ''Low'' \<rparr>,
          \<lparr> ws_id = ''B'', name = ''B'', owner = ''b'', budget = 2000, complexity = ''Low'' \<rparr>],
       progress =
         [\<lparr> week_ending = ''2024-01-07'', p_ws_id = ''A'', planned_pct = 50, actual_pct = 50,
            budget_spent = 1000, schedule_variance = 0, cpi = 1 \<rparr>,
          \<lparr> week_ending = ''2024-01-07'', p_ws_id = ''B'', planned_pct = 50, actual_pct = 20,
            budget_spent = 1500, schedule_variance = -30, cpi = 0.27 \<rparr>],
       change_requests = [] \<rparr>"

definition empty_db :: db where
  "empty_db = \<lparr> workstreams = [], progress = [], change_requests = [] \<rparr>"

definition example_db_older :: db where
  "example_db_older =
     example_db \<lparr> progress :=
       \<lparr> week_ending = ''2023-12-31'', p_ws_id = ''A'', planned_pct = 40, actual_pct = 35,
         budget_spent = 700, schedule_variance = -5, cpi = 1 \<rparr> # progress example_db \<rparr>"

text \<open>
  A store with two reporting weeks, entered out of order: B was entered before A, the first
  progress row is of the earlier week, and C last reported in the earlier week. B has one
  approved, one rejected and one pending change request, A a pending one, C an approved one.
\<close>

definition portfolio_db :: db where
  "portfolio_db =
     \<lparr> workstreams =
         [\<lparr> ws_id = ''B'', name = ''Beta'', owner = ''b'', budget = 2000, complexity = ''Low'' \<rparr>,
          \<lparr> ws_id = ''A'', name = ''Alpha'', owner = ''a'', budget = 2000, complexity = ''Low'' \<rparr>,
          \<lparr> ws_id = ''C'', name = ''Gamma'', owner = ''c'', budget = 2000, complexity = ''Low'' \<rparr>],
       progress =
         [\<lparr> week_ending = ''2023-12-31'', p_ws_id = ''C'', planned_pct = 40, actual_pct = 10,
            budget_spent = 900, schedule_variance = -30, cpi = 0.22 \<rparr>,
          \<lparr> week_ending = ''2023-12-31'', p_ws_id = ''A'', planned_pct = 40, actual_pct = 35,
            budget_spent = 700, schedule_variance = -5, cpi = 1 \<rparr>,
          \<lparr> week_ending = ''2024-01-07'', p_ws_id = ''A'', planned_pct = 50, actual_pct = 50,
            budget_spent = 1000, schedule_variance = 0, cpi = 1 \<rparr>,
          \<lparr> week_ending = ''2024-01-07'', p_ws_id = ''B'', planned_pct = 50, actual_pct = 20,
            budget_spent = 1500, schedule_variance = -30, cpi = 0.27 \<rparr>],
       change_requests =
         [\<lparr> cr_id = ''CR_1000'', cr_ws_id = ''B'', date_raised = ''2024-01-02'',
            title = ''Change Req #1'', status = ''Approved'', cost_impact = 20000,
            time_impact_days = 3 \<rparr>,
          \<lparr> cr_id = ''CR_1001'', cr_ws_id = ''B'', date_raised = ''2024-01-03'',
            title = ''Change Req #2'', status = ''Rejected'', cost_impact = 50000,
            time_impact_days = 5 \<rparr>,
          \<lparr> cr_id = ''CR_1002'', cr_ws_id = ''A'', date_raised = ''2024-01-03'',
            title = ''Change Req #3'', status = ''Pending'', cost_impact = 7000,
            time_impact_days = 1 \<rparr>,
          \<lparr> cr_id = ''CR_1003'', cr_ws_id = ''B'', date_raised = ''2024-01-04'',
            title = ''Change Req #4'', status = ''Pending'', cost_impact = 9000,
            time_impact_days = 2 \<rparr>,
          \<lparr> cr_id = ''CR_1004'', cr_ws_id = ''C'', date_raised = ''2023-12-20'',
            title = ''Change Req #5'', status = ''Approved'', cost_impact = 30000,
            time_impact_days = 4 \<rparr>] \<rparr>"

text \<open>Two workstreams, the first row of the earlier week: B did not report in the latest week.\<close>

definition lagging_db :: db where
  "lagging_db =
     \<lparr> workstreams =
         [\<lparr> ws_id = ''A'', name = ''A'', owner = ''a'', budget = 2000, complexity = ''Low'' \<rparr>,
          \<lparr> ws_id = ''B'', name = ''B'', owner = ''b'', budget = 2000, complexity = ''Low'' \<rparr>],
       progress =
         [\<lparr> week_ending = ''2023-12-31'', p_ws_id = ''B'', planned_pct = 40, actual_pct = 20,
            budget_spent = 1500, schedule_variance = -20, cpi = 0.27 \<rparr>,
          \<lparr> week_ending = ''2024-01-07'', p_ws_id = ''A'', planned_pct = 50, actual_pct = 50,
            budget_spent = 1000, schedule_variance = 0, cpi = 1 \<rparr>],
       change_requests = [] \<rparr>"

text \<open>
  One workstream that was entered twice for the latest week (the progress table has no
  uniqueness constraint on workstream and week), with two approved change requests.
\<close>

definition dup_db :: db where
  "dup_db =
     \<lparr> workstreams =
         [\<lparr> ws_id = ''A'', name = ''A'', owner = ''a'', budget = 2000, complexity = ''Low'' \<rparr>],
       progress =
         [\<lparr> week_ending = ''2023-12-31'', p_ws_id = ''A'', planned_pct = 40, actual_pct = 35,
            budget_spent = 700, schedule_variance = -5, cpi = 1 \<rparr>,
          \<lparr> week_ending = ''2024-01-07'', p_ws_id = ''A'', planned_pct = 50, actual_pct = 50,
            budget_spent = 1000, schedule_variance = 0, cpi = 1 \<rparr>,
          \<lparr> week_ending = ''2024-01-07'', p_ws_id = ''A'', planned_pct = 50, actual_pct = 45,
            budget_spent = 1100, schedule_variance = -5, cpi = 0.82 \<rparr>],
       change_requests =
         [\<lparr> cr_id = ''CR_1000'', cr_ws_id = ''A'', date_raised = ''2024-01-02'',
            title = ''Change Req #1'', status = ''Approved'', cost_impact = 10000,
            time_impact_days = 3 \<rparr>,
          \<lparr> cr_id = ''CR_1001'', cr_ws_id = ''A'', date_raised = ''2024-01-03'',
            title = ''Change Req #2'', status = ''Approved'', cost_impact = 30000,
            time_impact_days = 5 \<rparr>] \<rparr>"

text \<open>Rows that break the data model's ranges, and fixed streams of draws for the examples.\<close>

definition bad_snapshot :: progress_row where
  "bad_snapshot =
     \<lparr> week_ending = ''2024-01-07'', p_ws_id = ''WS_001'', planned_pct = 150, actual_pct = - 10,
       budget_spent = - 1, schedule_variance = - 160, cpi = 0 \<rparr>"

definition bad_change_request :: change_request_row where
  "bad_change_request =
     \<lparr> cr_id = ''CR_1'', cr_ws_id = ''WS_001'', date_raised = ''2024-01-07'',
       title = ''Change Req #1'', status = ''Escalated'', cost_impact = - 5000,
       time_impact_days = 1 \<rparr>"

definition demo_date_str :: "nat \<Rightarrow> string" where
  "demo_date_str n = ''2024-01-07''"

definition demo_rng :: "nat \<Rightarrow> real" where
  "demo_rng k = 1 / 2"

definition demo_bits :: "nat \<Rightarrow> nat" where
  "demo_bits k = k"

section \<open>Vocabulary of the proofs\<close>

text \<open>The specification's reading of "the rows at the latest week": those whose week is the
  greatest week of the table.\<close>

definition latest_rows :: "db \<Rightarrow> progress_row list" where
  "latest_rows d =
     filter (\<lambda>p. week_ending p = Max (set (map week_ending (progress d)))) (progress d)"

text \<open>
  In the specification's words again: a workstream's snapshots at the latest week, and its
  change requests with status Approved. Neither mentions the queries' own subquery or join.
\<close>

definition snapshots_at_latest_week :: "db \<Rightarrow> string \<Rightarrow> progress_row list" where
  "snapshots_at_latest_week d k = filter (\<lambda>p. p_ws_id p = k) (latest_rows d)"

definition approved_requests :: "db \<Rightarrow> string \<Rightarrow> change_request_row list" where
  "approved_requests d k =
     filter (\<lambda>c. cr_ws_id c = k \<and> status c = ''Approved'') (change_requests d)"

text \<open>The change requests that the rows of a join carry, the \<open>NULL\<close> ones left out.\<close>

definition joined_requests ::
  "(workstream_row \<times> change_request_row option \<times> progress_row) list \<Rightarrow> change_request_row list" where
  "joined_requests rows =
     concat (map (\<lambda>r. case fst (snd r) of None \<Rightarrow> [] | Some cr \<Rightarrow> [cr]) rows)"

text \<open>The multipliers of the three personas, as functions of the draw.\<close>

definition actual_factor :: "string \<Rightarrow> real \<Rightarrow> real" where
  "actual_factor ws u =
     (if ws = ''WS_002'' then uniform 0.3 0.8 u
      else if ws = ''WS_001'' then uniform 0.95 1.05 u else uniform 0.8 1.0 u)"

definition spend_factor :: "string \<Rightarrow> real \<Rightarrow> real" where
  "spend_factor ws u =
     (if ws = ''WS_002'' then uniform 1.1 1.5 u else uniform 0.9 1.1 u)"

text \<open>The record a week emits, from the totals after the week; and the state after a week
  whose division succeeds.\<close>

definition snapshot :: "string \<Rightarrow> string \<Rightarrow> real \<Rightarrow> real \<Rightarrow> real \<Rightarrow> real \<Rightarrow> progress_row" where
  "snapshot wk ws bud p a s =
     \<lparr> week_ending = wk, p_ws_id = ws, planned_pct = py_round2 p, actual_pct = py_round2 a,
       budget_spent = py_round2 s, schedule_variance = py_round2 (a - p),
       cpi = py_round2 (a / 100 * bud / (s + 1)) \<rparr>"

definition post :: "(nat \<Rightarrow> string) \<Rightarrow> (nat \<Rightarrow> real) \<Rightarrow> string \<Rightarrow> real \<Rightarrow> nat \<Rightarrow> gen_state \<Rightarrow> gen_state" where
  "post date_str rng ws bud i st =
     (let p = min 100 (current_planned st + 25 / 6);
          a = min 100 (current_actual st + 25 / 6 * actual_factor ws (rng (rng_pos st)));
          s = current_spend st + bud / 24 * spend_factor ws (rng (rng_pos st + 1))
      in \<lparr> rng_pos = rng_pos st + 2, current_planned = p, current_actual = a, current_spend = s,
           progress_records = progress_records st @ [snapshot (date_str (7 * i)) ws bud p a s] \<rparr>)"

definition state_ok :: "gen_state \<Rightarrow> bool" where
  "state_ok st = (0 \<le> current_planned st \<and> 0 \<le> current_actual st \<and> 0 \<le> current_spend st)"

definition reset :: "gen_state \<Rightarrow> gen_state" where
  "reset st = st \<lparr> current_planned := 0, current_actual := 0, current_spend := 0 \<rparr>"

definition not_ahead :: "progress_row \<Rightarrow> bool" where
  "not_ahead p = (actual_pct p \<le> planned_pct p \<and> schedule_variance p \<le> 0)"

definition cr_ok :: "change_request_row \<Rightarrow> bool" where
  "cr_ok c = (0 \<le> cost_impact c \<and> status c \<in> {''Pending'', ''Approved'', ''Rejected''})"

section \<open>Theorems\<close>

text \<open>
  C1. On the fact set with workstreams A (planned 50, actual 50, spend 1000, budget 2000) and
  B (planned 50, actual 20, spend 1500, budget 2000), one snapshot each at week 2024-01-07,
  the status grid lists B (variance -30) before A (variance 0), and the KPI total spend is 2500.
\<close>

theorem C1_example_grid_and_spend:
  "map s_ws_id (status_query example_db) = [''B'', ''A'']
   \<and> map s_schedule_variance (status_query example_db) = [-30, 0]
   \<and> total_spend (kpi_query example_db) = Some 2500"
  by (simp add: status_query_def status_join_def status_select_def kpi_query_def at_latest_def
      latest_week_def sql_max_def sql_sum_def example_db_def)

text \<open>
  C8. On the empty fact set the request computes all views without an error value:
  the KPI sums are NULL and the count is 0, and the status grid, the label list, the series
  and the bubble list are empty.
\<close>

theorem C8_empty_fact_set:
  "dashboard empty_db =
     \<lparr> kpis = \<lparr> total_spend = None, avg_cpi = None, active_risks = 0 \<rparr>,
       projects = [], view_labels = [], view_datasets = [], view_bubbles = [] \<rparr>"
  by (simp add: dashboard_def kpi_query_def status_query_def status_join_def history_query_def
      chart_labels_def chart_datasets_def bubble_data_def bubble_query_def bubble_join_def
      sql_sum_def sql_avg_def empty_db_def)

subsection \<open>The latest week\<close>

lemma sql_max_Max: "xs \<noteq> [] \<Longrightarrow> sql_max xs = Some (Max (set xs))"
  by (cases xs) (simp_all add: sql_max_def Max.set_eq_fold[symmetric])

lemma at_latest_Max:
  "progress d \<noteq> [] \<Longrightarrow> at_latest d p = (week_ending p = Max (set (map week_ending (progress d))))"
  by (simp add: at_latest_def latest_week_def sql_max_Max)

lemma latest_rows_nonempty: "progress d \<noteq> [] \<Longrightarrow> latest_rows d \<noteq> []"
proof -
  assume ne: "progress d \<noteq> []"
  then have "Max (set (map week_ending (progress d))) \<in> set (map week_ending (progress d))"
    by (intro Max_in) auto
  then obtain p where "p \<in> set (progress d)"
      "week_ending p = Max (set (map week_ending (progress d)))"
    by auto
  then show ?thesis by (auto simp: latest_rows_def filter_empty_conv)
qed

lemma total_spend_latest:
  "progress d \<noteq> [] \<Longrightarrow> total_spend (kpi_query d) = Some (sum_list (map budget_spent (latest_rows d)))"
  using latest_rows_nonempty[of d]
  by (simp add: kpi_query_def sql_sum_def latest_rows_def at_latest_Max cong: filter_cong)

lemma latest_rows_example: "latest_rows example_db = progress example_db"
  by (simp add: latest_rows_def example_db_def)

lemma latest_rows_example_older: "latest_rows example_db_older = progress example_db"
  by (simp add: latest_rows_def example_db_older_def example_db_def)

subsection \<open>The queries' joins and filters, in the specification's words\<close>

lemma latest_snapshots_spec: "latest_snapshots d w = snapshots_at_latest_week d (ws_id w)"
proof (cases "progress d = []")
  case True
  then show ?thesis
    by (simp add: latest_snapshots_def snapshots_at_latest_week_def latest_rows_def)
next
  case False
  have "filter (\<lambda>p. ws_id w = p_ws_id p \<and> at_latest d p) (progress d)
      = filter (\<lambda>p. p_ws_id p = ws_id w)
          (filter (\<lambda>p. week_ending p = Max (set (map week_ending (progress d)))) (progress d))"
    unfolding filter_filter by (rule filter_cong) (auto simp: at_latest_Max[OF False])
  then show ?thesis
    by (simp add: latest_snapshots_def snapshots_at_latest_week_def latest_rows_def)
qed

lemma approved_crs_spec: "approved_crs d w = approved_requests d (ws_id w)"
  unfolding approved_crs_def approved_requests_def by (rule filter_cong) auto

text \<open>The hypothesis of unique workstream ids is kept by the store: \<open>INSERT OR REPLACE\<close>
  on the primary key never leaves two workstreams with one id.\<close>

lemma workstream_ids_kept:
  assumes "distinct (map ws_id (workstreams d))"
  shows "distinct (map ws_id (workstreams (executemany insert_or_replace_workstream rows d)))"
  using assms unfolding executemany_def
proof (induction rows arbitrary: d)
  case Nil
  then show ?case by simp
next
  case (Cons w rows)
  have "distinct (map ws_id (workstreams (insert_or_replace_workstream w d)))"
    using Cons.prems
    by (auto simp: insert_or_replace_workstream_def distinct_map_filter)
  from Cons.IH[OF this] show ?case by simp
qed

subsection \<open>Status grid\<close>

lemma group_rows:
  assumes own: "\<And>w r. r \<in> set (F w) \<Longrightarrow> fst r = w"
      and pk: "distinct (map ws_id ws)" and mem: "w \<in> set ws"
  shows "filter (\<lambda>r. ws_id (fst r) = ws_id w) (concat (map F ws)) = F w"
  using pk mem
proof (induction ws)
  case Nil
  then show ?case by simp
next
  case (Cons v ws)
  show ?case
  proof (cases "v = w")
    case True
    have a: "filter (\<lambda>r. ws_id (fst r) = ws_id w) (F w) = F w"
      using own by (auto simp: filter_id_conv)
    have "\<forall>u\<in>set ws. ws_id u \<noteq> ws_id w" using Cons.prems True by (fastforce simp: image_iff)
    then have b: "filter (\<lambda>r. ws_id (fst r) = ws_id w) (concat (map F ws)) = []"
      using own by (auto simp: filter_empty_conv)
    show ?thesis using True a b by simp
  next
    case False
    then have w: "w \<in> set ws" using Cons.prems by simp
    have "ws_id v \<noteq> ws_id w" using Cons.prems False w by auto
    then have "filter (\<lambda>r. ws_id (fst r) = ws_id w) (F v) = []"
      using own by (auto simp: filter_empty_conv)
    then show ?thesis using Cons w by simp
  qed
qed

lemma status_join_rows:
  "status_join d = concat (map (\<lambda>w. map (Pair w) (latest_snapshots d w)) (workstreams d))"
  by (simp add: status_join_def latest_snapshots_def)

lemma status_rows_of_workstream:
  assumes pk: "distinct (map ws_id (workstreams d))" and w: "w \<in> set (workstreams d)"
  shows "length (filter (\<lambda>r. s_ws_id r = ws_id w) (status_query d))
       = length (snapshots_at_latest_week d (ws_id w))"
proof -
  let ?key = "\<lambda>wp. schedule_variance (snd wp)"
  have sel: "(\<lambda>r. s_ws_id r = ws_id w) \<circ> status_select = (\<lambda>wp. ws_id (fst wp) = ws_id w)"
    by (auto simp: status_select_def fun_eq_iff)
  have own: "\<And>v r. r \<in> set (map (Pair v) (latest_snapshots d v)) \<Longrightarrow> fst r = v"
    by auto
  have "length (filter (\<lambda>r. s_ws_id r = ws_id w) (status_query d))
      = length (filter (\<lambda>wp. ws_id (fst wp) = ws_id w) (sort_key ?key (status_join d)))"
    by (simp add: status_query_def filter_map sel)
  also have "\<dots> = length (filter (\<lambda>wp. ws_id (fst wp) = ws_id w) (status_join d))"
    by (simp add: filter_sort)
  also have "filter (\<lambda>wp. ws_id (fst wp) = ws_id w) (status_join d)
      = map (Pair w) (latest_snapshots d w)"
    unfolding status_join_rows
    using group_rows[where F = "\<lambda>w. map (Pair w) (latest_snapshots d w)", OF own pk w] .
  finally show ?thesis by (simp add: latest_snapshots_spec)
qed

lemma status_rows_origin:
  assumes r: "r \<in> set (status_query d)"
  shows "\<exists>w p. w \<in> set (workstreams d) \<and> p \<in> set (snapshots_at_latest_week d (ws_id w))
          \<and> r = status_select (w, p)"
proof -
  from r obtain wp where wp: "wp \<in> set (status_join d)" "r = status_select wp"
    by (auto simp: status_query_def)
  obtain w p where e: "wp = (w, p)" by (cases wp)
  have "w \<in> set (workstreams d) \<and> p \<in> set (latest_snapshots d w)"
    using wp(1) unfolding status_join_rows e by auto
  then show ?thesis using wp(2) e by (auto simp: latest_snapshots_spec)
qed

lemma status_query_sorted: "sorted (map s_schedule_variance (status_query d))"
proof -
  have "s_schedule_variance \<circ> status_select = (\<lambda>wp. schedule_variance (snd wp))"
    by (auto simp: status_select_def fun_eq_iff)
  then show ?thesis by (simp add: status_query_def)
qed

text \<open>
  C2, as stated, fails: the progress table does not keep a workstream to one snapshot per
  week, and a workstream entered twice for the latest week has two rows in the grid.
\<close>

theorem C2_duplicate_snapshot_two_rows:
  "map ws_id (workstreams dup_db) = [''A'']
   \<and> map s_ws_id (status_query dup_db) = [''A'', ''A'']"
  by (simp add: status_query_def status_join_def status_select_def at_latest_def
      latest_week_def sql_max_def max_def dup_db_def)

text \<open>
  C2, amended. For every fact set (workstream ids are unique, the table's primary key) the
  status grid has, for each workstream, as many rows as the workstream has snapshots at the
  latest week, the greatest week of all snapshots: none for a workstream without one,
  exactly one for a workstream with one. Every row shows a workstream's id, name and
  owner with the figures of one of that workstream's latest-week snapshots, and a row
  that comes before another has the smaller or equal schedule variance.
\<close>

theorem C2_status_grid:
  assumes pk: "distinct (map ws_id (workstreams d))"
  shows "(\<forall>w\<in>set (workstreams d).
            length (filter (\<lambda>r. s_ws_id r = ws_id w) (status_query d))
              = length (snapshots_at_latest_week d (ws_id w)))
     \<and> (\<forall>r\<in>set (status_query d).
           \<exists>w p. w \<in> set (workstreams d) \<and> p \<in> set (snapshots_at_latest_week d (ws_id w))
             \<and> s_ws_id r = ws_id w \<and> s_name r = name w \<and> s_owner r = owner w
             \<and> s_actual_pct r = actual_pct p \<and> s_planned_pct r = planned_pct p
             \<and> s_schedule_variance r = schedule_variance p
             \<and> s_budget_spent r = budget_spent p \<and> s_cpi r = cpi p)
     \<and> (\<forall>i j. i < j \<and> j < length (status_query d) \<longrightarrow>
            s_schedule_variance (status_query d ! i) \<le> s_schedule_variance (status_query d ! j))"
proof -
  have a: "\<forall>w\<in>set (workstreams d).
            length (filter (\<lambda>r. s_ws_id r = ws_id w) (status_query d))
              = length (snapshots_at_latest_week d (ws_id w))"
    using status_rows_of_workstream[OF pk] by blast
  have b: "\<forall>r\<in>set (status_query d).
           \<exists>w p. w \<in> set (workstreams d) \<and> p \<in> set (snapshots_at_latest_week d (ws_id w))
             \<and> s_ws_id r = ws_id w \<and> s_name r = name w \<and> s_owner r = owner w
             \<and> s_actual_pct r = actual_pct p \<and> s_planned_pct r = planned_pct p
             \<and> s_schedule_variance r = schedule_variance p
             \<and> s_budget_spent r = budget_spent p \<and> s_cpi r = cpi p"
  proof
    fix r assume "r \<in> set (status_query d)"
    from status_rows_origin[OF this] obtain w p where
      "w \<in> set (workstreams d)" "p \<in> set (snapshots_at_latest_week d (ws_id w))"
      "r = status_select (w, p)"
      by blast
    then show "\<exists>w p. w \<in> set (workstreams d) \<and> p \<in> set (snapshots_at_latest_week d (ws_id w))
             \<and> s_ws_id r = ws_id w \<and> s_name r = name w \<and> s_owner r = owner w
             \<and> s_actual_pct r = actual_pct p \<and> s_planned_pct r = planned_pct p
             \<and> s_schedule_variance r = schedule_variance p
             \<and> s_budget_spent r = budget_spent p \<and> s_cpi r = cpi p"
      by (intro exI[of _ w] exI[of _ p]) (simp add: status_select_def)
  qed
  have c: "\<forall>i j. i < j \<and> j < length (status_query d) \<longrightarrow>
            s_schedule_variance (status_query d ! i) \<le> s_schedule_variance (status_query d ! j)"
  proof (intro allI impI)
    fix i j assume ij: "i < j \<and> j < length (status_query d)"
    then have "map s_schedule_variance (status_query d) ! i
             \<le> map s_schedule_variance (status_query d) ! j"
      using status_query_sorted[of d] by (intro sorted_nth_mono) auto
    then show "s_schedule_variance (status_query d ! i) \<le> s_schedule_variance (status_query d ! j)"
      using ij by simp
  qed
  show ?thesis using a b c by blast
qed

lemma latest_rows_portfolio: "latest_rows portfolio_db = drop 2 (progress portfolio_db)"
  by (simp add: latest_rows_def portfolio_db_def)

theorem C2_status_grid_witness:
  "distinct (map ws_id (workstreams portfolio_db))
   \<and> length (filter (\<lambda>r. s_ws_id r = ''A'') (status_query portfolio_db)) = 1
   \<and> length (filter (\<lambda>r. s_ws_id r = ''B'') (status_query portfolio_db)) = 1
   \<and> length (filter (\<lambda>r. s_ws_id r = ''C'') (status_query portfolio_db)) = 0
   \<and> list_all (\<lambda>r. s_ws_id r \<in> {''A'', ''B''} \<and> s_schedule_variance r \<in> {0, - 30})
        (status_query portfolio_db)"
proof -
  have pk: "distinct (map ws_id (workstreams portfolio_db))"
    by (simp add: portfolio_db_def)
  note grid = C2_status_grid[OF pk]
  have cnt: "\<forall>w\<in>set (workstreams portfolio_db).
            length (filter (\<lambda>r. s_ws_id r = ws_id w) (status_query portfolio_db))
              = length (snapshots_at_latest_week portfolio_db (ws_id w))"
    using grid by blast
  have ws: "map ws_id (workstreams portfolio_db) = [''B'', ''A'', ''C'']"
    by (simp add: portfolio_db_def)
  have sa: "length (snapshots_at_latest_week portfolio_db ''A'') = 1"
    and sb: "length (snapshots_at_latest_week portfolio_db ''B'') = 1"
    and sc: "length (snapshots_at_latest_week portfolio_db ''C'') = 0"
    unfolding snapshots_at_latest_week_def latest_rows_portfolio
    by (simp_all add: portfolio_db_def)
  have a: "length (filter (\<lambda>r. s_ws_id r = ''A'') (status_query portfolio_db)) = 1"
    and b: "length (filter (\<lambda>r. s_ws_id r = ''B'') (status_query portfolio_db)) = 1"
    and c: "length (filter (\<lambda>r. s_ws_id r = ''C'') (status_query portfolio_db)) = 0"
    using cnt sa sb sc by (simp_all add: portfolio_db_def)
  have "\<forall>r\<in>set (status_query portfolio_db).
           \<exists>w p. w \<in> set (workstreams portfolio_db)
             \<and> p \<in> set (snapshots_at_latest_week portfolio_db (ws_id w))
             \<and> s_ws_id r = ws_id w \<and> s_schedule_variance r = schedule_variance p"
    using grid by blast
  then have "\<forall>r\<in>set (status_query portfolio_db).
      s_ws_id r \<in> {''A'', ''B''} \<and> s_schedule_variance r \<in> {0, - 30}"
    unfolding snapshots_at_latest_week_def latest_rows_portfolio
    by (auto simp: portfolio_db_def)
  then show ?thesis using pk a b c by (simp add: list_all_iff)
qed

subsection \<open>KPI cards\<close>

text \<open>
  C3. When the progress table is not empty, the KPI total spend is the sum of
  \<open>budget_spent\<close> over exactly the rows whose week is the greatest week of the table; so two
  fact sets with the same rows at their latest week have the same total spend, whatever
  their rows at other weeks.
\<close>

theorem C3_total_spend_latest_week:
  assumes "progress d \<noteq> []" and "progress d' \<noteq> []"
      and "latest_rows d' = latest_rows d"
  shows "total_spend (kpi_query d) = Some (sum_list (map budget_spent (latest_rows d)))
       \<and> total_spend (kpi_query d') = total_spend (kpi_query d)"
  using assms by (simp add: total_spend_latest)

theorem C3_total_spend_latest_week_witness:
  "progress example_db \<noteq> [] \<and> progress example_db_older \<noteq> []
   \<and> progress example_db_older \<noteq> progress example_db
   \<and> latest_rows example_db_older = latest_rows example_db
   \<and> total_spend (kpi_query example_db) = Some 2500
   \<and> total_spend (kpi_query example_db_older) = Some 2500"
proof -
  have a: "progress example_db \<noteq> []" by (simp add: example_db_def)
  have b: "progress example_db_older \<noteq> []" by (simp add: example_db_older_def)
  have c: "latest_rows example_db_older = latest_rows example_db"
    by (simp add: latest_rows_example latest_rows_example_older)
  have d: "progress example_db_older \<noteq> progress example_db"
    by (simp add: example_db_older_def)
  have "sum_list (map budget_spent (latest_rows example_db)) = 2500"
    unfolding latest_rows_example by (simp add: example_db_def)
  with C3_total_spend_latest_week[OF a b c] a b c d show ?thesis by simp
qed

subsection \<open>Bubble chart\<close>

lemma remdups_const_append:
  "\<forall>x\<in>set xs. x = k \<Longrightarrow> k \<notin> set ys \<Longrightarrow> xs \<noteq> [] \<Longrightarrow> remdups (xs @ ys) = k # remdups ys"
proof (induction xs)
  case Nil
  then show ?case by simp
next
  case (Cons x xs)
  have xk: "x = k" using Cons.prems by simp
  show ?case
  proof (cases "xs = []")
    case True
    then show ?thesis using xk Cons.prems by simp
  next
    case False
    then obtain z zs where "xs = z # zs" by (cases xs) auto
    then have "k \<in> set xs" using Cons.prems by simp
    moreover have "remdups (xs @ ys) = k # remdups ys"
      using Cons False by simp
    ultimately show ?thesis using xk by simp
  qed
qed

lemma group_keys:
  assumes own: "\<And>w r. r \<in> set (F w) \<Longrightarrow> fst r = w"
      and pk: "distinct (map ws_id ws)"
  shows "remdups (map (\<lambda>r. ws_id (fst r)) (concat (map F ws)))
       = map ws_id (filter (\<lambda>w. F w \<noteq> []) ws)"
  using pk
proof (induction ws)
  case Nil
  then show ?case by simp
next
  case (Cons w ws)
  let ?ys = "map (\<lambda>r. ws_id (fst r)) (concat (map F ws))"
  have notin: "ws_id w \<notin> set ?ys"
    using Cons.prems own by (auto simp: image_iff)
  show ?case
  proof (cases "F w = []")
    case True
    then show ?thesis using Cons by simp
  next
    case False
    have "remdups (map (\<lambda>r. ws_id (fst r)) (F w) @ ?ys) = ws_id w # remdups ?ys"
      using False own notin by (intro remdups_const_append) auto
    then show ?thesis using Cons False by simp
  qed
qed

lemma bubble_join_ws_own: "r \<in> set (bubble_join_ws d w) \<Longrightarrow> fst r = w"
  by (auto simp: bubble_join_ws_def)

lemma bubble_join_ws_empty: "(bubble_join_ws d w \<noteq> []) = (latest_snapshots d w \<noteq> [])"
  by (auto simp: bubble_join_ws_def left_join_cr_def)

lemma coalesce_sum: "coalesce (sql_sum xs) 0 = sum_list xs"
  by (simp add: coalesce_def sql_sum_def)

lemma concat_singletons: "concat (map (\<lambda>w. [f w]) ws) = map f ws"
  by (induction ws) auto

lemma sort_map_key:
  assumes "distinct (map f xs)"
  shows "sort (map f xs) = map f (sort_key f xs)"
proof (rule sorted_distinct_set_unique)
  show "sorted (sort (map f xs))" by simp
  show "distinct (sort (map f xs))" using assms by simp
  show "sorted (map f (sort_key f xs))" by simp
  show "distinct (map f (sort_key f xs))" using assms by (simp add: distinct_map)
  show "set (sort (map f xs)) = set (map f (sort_key f xs))" by simp
qed

lemma bubble_query_groups:
  assumes pk: "distinct (map ws_id (workstreams d))"
  shows "bubble_query d
       = concat (map (\<lambda>w. bubble_group (bubble_join_ws d w))
                     (sort_key ws_id (filter (\<lambda>w. latest_snapshots d w \<noteq> []) (workstreams d))))"
proof -
  let ?ws = "filter (\<lambda>w. latest_snapshots d w \<noteq> []) (workstreams d)"
  have own: "\<And>w r. r \<in> set (bubble_join_ws d w) \<Longrightarrow> fst r = w"
    by (rule bubble_join_ws_own)
  have "remdups (map (\<lambda>r. ws_id (fst r)) (bubble_join d)) = map ws_id ?ws"
    unfolding bubble_join_def
    using group_keys[where F = "bubble_join_ws d" and ws = "workstreams d", OF own pk]
    by (simp add: bubble_join_ws_empty)
  moreover have "distinct (map ws_id ?ws)" using pk by (rule distinct_map_filter)
  ultimately have keys: "sort (remdups (map (\<lambda>r. ws_id (fst r)) (bubble_join d)))
      = map ws_id (sort_key ws_id ?ws)"
    by (simp add: sort_map_key)
  have rows: "\<And>w. w \<in> set (workstreams d) \<Longrightarrow>
      filter (\<lambda>r. ws_id (fst r) = ws_id w) (bubble_join d) = bubble_join_ws d w"
    unfolding bubble_join_def
    using group_rows[where F = "bubble_join_ws d" and ws = "workstreams d", OF own pk] by blast
  show ?thesis
    unfolding bubble_query_def Let_def keys map_map comp_def
    by (rule arg_cong[where f = concat], rule map_cong) (auto simp: rows)
qed

lemma joined_requests_simps:
  "joined_requests [] = []"
  "joined_requests ((w, None, p) # rest) = joined_requests rest"
  "joined_requests ((w, Some c, p) # rest) = c # joined_requests rest"
  "joined_requests (xs @ ys) = joined_requests xs @ joined_requests ys"
  by (simp_all add: joined_requests_def)

lemma requests_of_snapshots:
  "joined_requests (map (\<lambda>q. (w, Some c, q)) ps) = replicate (length ps) c"
  by (induction ps) (simp_all add: joined_requests_simps)

lemma requests_of_null_join: "joined_requests (map (\<lambda>q. (w, None, q)) ps) = []"
  by (induction ps) (simp_all add: joined_requests_simps)

lemma requests_of_join:
  "joined_requests (concat (map (\<lambda>c. map (\<lambda>q. (w, c, q)) ps) (map Some cs)))
     = concat (map (\<lambda>c. replicate (length ps) c) cs)"
proof (induction cs)
  case Nil
  show ?case by (simp add: joined_requests_simps)
next
  case (Cons c cs)
  have "joined_requests (concat (map (\<lambda>c. map (\<lambda>q. (w, c, q)) ps) (map Some (c # cs))))
      = joined_requests (map (\<lambda>q. (w, Some c, q)) ps)
        @ joined_requests (concat (map (\<lambda>c. map (\<lambda>q. (w, c, q)) ps) (map Some cs)))"
    by (simp only: list.map concat.simps joined_requests_simps(4))
  then show ?case by (simp only: Cons requests_of_snapshots list.map concat.simps)
qed

lemma length_repeated: "length (concat (map (\<lambda>c. replicate n c) cs)) = length cs * n"
  by (induction cs) auto

lemma sum_repeated:
  "sum_list (map f (concat (map (\<lambda>c. replicate n c) cs))) = sum_list (map f cs) * real n"
  for f :: "'a \<Rightarrow> real"
  by (induction cs) (simp_all add: sum_list_replicate algebra_simps)

lemma bubble_group_Cons:
  "bubble_group ((w, c, p) # rest) =
     [\<lparr> b_name = name w,
        b_cr_count = length (joined_requests ((w, c, p) # rest)),
        b_total_cr_cost = sum_list (map cost_impact (joined_requests ((w, c, p) # rest))),
        b_schedule_variance = schedule_variance p \<rparr>]"
  by (simp only: bubble_group.simps Let_def coalesce_sum joined_requests_def)

lemma bubble_group_ws:
  assumes l: "latest_snapshots d w = p # ps"
  shows "bubble_group (bubble_join_ws d w)
       = [\<lparr> b_name = name w,
            b_cr_count = length (approved_crs d w) * length (latest_snapshots d w),
            b_total_cr_cost = sum_list (map cost_impact (approved_crs d w))
                                * real (length (latest_snapshots d w)),
            b_schedule_variance = schedule_variance p \<rparr>]"
proof (cases "approved_crs d w = []")
  case True
  have j: "bubble_join_ws d w = map (\<lambda>q. (w, None, q)) (p # ps)"
    by (simp add: bubble_join_ws_def left_join_cr_def True l)
  have h: "bubble_join_ws d w = (w, None, p) # map (\<lambda>q. (w, None, q)) ps"
    unfolding j by simp
  have r: "joined_requests (bubble_join_ws d w) = []"
    unfolding j by (rule requests_of_null_join)
  have "bubble_group (bubble_join_ws d w)
      = [\<lparr> b_name = name w,
           b_cr_count = length (joined_requests (bubble_join_ws d w)),
           b_total_cr_cost = sum_list (map cost_impact (joined_requests (bubble_join_ws d w))),
           b_schedule_variance = schedule_variance p \<rparr>]"
    unfolding h by (rule bubble_group_Cons)
  then show ?thesis by (simp add: r True)
next
  case False
  then obtain c cs where a: "approved_crs d w = c # cs" by (cases "approved_crs d w") auto
  have j: "bubble_join_ws d w
      = concat (map (\<lambda>c. map (\<lambda>q. (w, c, q)) (p # ps)) (map Some (approved_crs d w)))"
    by (simp add: bubble_join_ws_def left_join_cr_def False l)
  have h: "bubble_join_ws d w
      = (w, Some c, p) # (map (\<lambda>q. (w, Some c, q)) ps
           @ concat (map (\<lambda>c. map (\<lambda>q. (w, c, q)) (p # ps)) (map Some cs)))"
    unfolding j a by simp
  have r: "joined_requests (bubble_join_ws d w)
      = concat (map (\<lambda>c. replicate (length (p # ps)) c) (approved_crs d w))"
    unfolding j by (rule requests_of_join)
  have "bubble_group (bubble_join_ws d w)
      = [\<lparr> b_name = name w,
           b_cr_count = length (joined_requests (bubble_join_ws d w)),
           b_total_cr_cost = sum_list (map cost_impact (joined_requests (bubble_join_ws d w))),
           b_schedule_variance = schedule_variance p \<rparr>]"
    apply (subst (1) h)
    apply (subst bubble_group_Cons)
    apply (subst (1 2) h)
    apply (rule refl)
    done
  then show ?thesis
    unfolding r length_repeated sum_repeated l by simp
qed

lemma bubble_query_rows:
  assumes pk: "distinct (map ws_id (workstreams d))"
  shows "bubble_query d =
     map (\<lambda>w. \<lparr> b_name = name w,
                b_cr_count = length (approved_crs d w) * length (latest_snapshots d w),
                b_total_cr_cost = sum_list (map cost_impact (approved_crs d w))
                                    * real (length (latest_snapshots d w)),
                b_schedule_variance = schedule_variance (hd (latest_snapshots d w)) \<rparr>)
         (sort_key ws_id (filter (\<lambda>w. latest_snapshots d w \<noteq> []) (workstreams d)))"
proof -
  let ?row = "\<lambda>w. \<lparr> b_name = name w,
                b_cr_count = length (approved_crs d w) * length (latest_snapshots d w),
                b_total_cr_cost = sum_list (map cost_impact (approved_crs d w))
                                    * real (length (latest_snapshots d w)),
                b_schedule_variance = schedule_variance (hd (latest_snapshots d w)) \<rparr>"
  let ?ws = "sort_key ws_id (filter (\<lambda>w. latest_snapshots d w \<noteq> []) (workstreams d))"
  have "bubble_group (bubble_join_ws d w) = [?row w]" if "w \<in> set ?ws" for w
  proof -
    from that have "latest_snapshots d w \<noteq> []" by simp
    then obtain p ps where p: "latest_snapshots d w = p # ps"
      by (cases "latest_snapshots d w") auto
    show ?thesis using bubble_group_ws[OF p] by (simp add: p)
  qed
  then have "map (\<lambda>w. bubble_group (bubble_join_ws d w)) ?ws = map (\<lambda>w. [?row w]) ?ws"
    by (intro map_cong) auto
  then show ?thesis
    unfolding bubble_query_groups[OF pk] by (simp only: concat_singletons)
qed

text \<open>
  C4, as stated, fails: a workstream without a snapshot at the latest week has no entry in
  the bubble view. Here B last reported on 2023-12-31 and A on 2024-01-07.
\<close>

theorem C4_lagging_workstream_omitted:
  "map b_name (bubble_query lagging_db) = [''A'']
   \<and> map name (workstreams lagging_db) = [''A'', ''B'']"
  by (simp add: bubble_query_def bubble_join_def bubble_join_ws_def left_join_cr_def
      approved_crs_def latest_snapshots_def at_latest_def latest_week_def sql_max_def
      lagging_db_def max_def)

text \<open>
  C4, amended. For every fact set (workstream ids are unique, the table's primary key) the
  bubble view has one entry for each workstream that has a snapshot at the latest week,
  the greatest week of all snapshots, in the order of the workstream ids, and none for a
  workstream without one. The entry is labelled with the workstream's name. Its count and
  cost are taken over that workstream's change requests with status Approved only, each
  counted once for every snapshot the workstream has at the latest week: exactly once
  when it has a single snapshot there, and count 0 and cost 0 when it has no approved
  change request. Its \<open>y\<close> is the schedule variance of one of the workstream's
  latest-week snapshots, and its radius is the cost divided by 10000.
\<close>

theorem C4_bubble_view:
  assumes pk: "distinct (map ws_id (workstreams d))"
  shows "list_all2
           (\<lambda>w e. pt_label e = name w
                \<and> pt_x e = length (approved_requests d (ws_id w))
                            * length (snapshots_at_latest_week d (ws_id w))
                \<and> pt_r e = sum_list (map cost_impact (approved_requests d (ws_id w)))
                            * real (length (snapshots_at_latest_week d (ws_id w))) / 10000
                \<and> pt_y e \<in> schedule_variance ` set (snapshots_at_latest_week d (ws_id w)))
           (sort_key ws_id
              (filter (\<lambda>w. snapshots_at_latest_week d (ws_id w) \<noteq> []) (workstreams d)))
           (bubble_data (bubble_query d))"
proof -
  let ?ws = "sort_key ws_id
              (filter (\<lambda>w. snapshots_at_latest_week d (ws_id w) \<noteq> []) (workstreams d))"
  have "hd (snapshots_at_latest_week d (ws_id w)) \<in> set (snapshots_at_latest_week d (ws_id w))"
    if "w \<in> set ?ws" for w
    using that by simp
  then show ?thesis
    unfolding bubble_query_rows[OF pk] bubble_data_def latest_snapshots_spec approved_crs_spec
    by (simp add: list.rel_map list_all2_same)
qed

lemma workstreams_at_latest_portfolio:
  "sort_key ws_id
     (filter (\<lambda>w. snapshots_at_latest_week portfolio_db (ws_id w) \<noteq> []) (workstreams portfolio_db))
   = [\<lparr> ws_id = ''A'', name = ''Alpha'', owner = ''a'', budget = 2000, complexity = ''Low'' \<rparr>,
      \<lparr> ws_id = ''B'', name = ''Beta'', owner = ''b'', budget = 2000, complexity = ''Low'' \<rparr>]"
  unfolding snapshots_at_latest_week_def latest_rows_portfolio
  by (simp add: portfolio_db_def)

theorem C4_bubble_view_witness:
  "distinct (map ws_id (workstreams portfolio_db))
   \<and> map pt_label (bubble_data (bubble_query portfolio_db)) = [''Alpha'', ''Beta'']
   \<and> map pt_x (bubble_data (bubble_query portfolio_db)) = [0, 1]
   \<and> map pt_r (bubble_data (bubble_query portfolio_db)) = [0, 2]
   \<and> map pt_y (bubble_data (bubble_query portfolio_db)) = [0, - 30]"
proof -
  have pk: "distinct (map ws_id (workstreams portfolio_db))"
    by (simp add: portfolio_db_def)
  show ?thesis
    using pk C4_bubble_view[OF pk]
    unfolding workstreams_at_latest_portfolio
    unfolding snapshots_at_latest_week_def latest_rows_portfolio approved_requests_def
    by (auto simp: list_all2_Cons1 portfolio_db_def)
qed

text \<open>
  The repetition is real: the workstream of \<open>dup_db\<close> has two approved change requests
  of 10000 and 30000 and two snapshots at the latest week, and its entry counts 4 requests
  and has radius 8.
\<close>

lemma bubble_counts_once_per_snapshot:
  "map pt_x (bubble_data (bubble_query dup_db)) = [4]
   \<and> map pt_r (bubble_data (bubble_query dup_db)) = [8]"
  by (simp add: bubble_data_def bubble_query_def bubble_join_def bubble_join_ws_def
      left_join_cr_def approved_crs_def latest_snapshots_def at_latest_def latest_week_def
      sql_max_def max_def coalesce_def sql_sum_def dup_db_def)

section \<open>Theorems about the generator\<close>

subsection \<open>Rounding and the draws\<close>

lemma round_half_even_of_int: "round_half_even (of_int k) = k"
  by (simp add: round_half_even_def)

lemma round_half_even_bounds: "\<lfloor>v\<rfloor> \<le> round_half_even v \<and> round_half_even v \<le> \<lfloor>v\<rfloor> + 1"
  by (simp add: round_half_even_def Let_def)

lemma round_half_even_mono:
  assumes "v \<le> w" shows "round_half_even v \<le> round_half_even w"
proof (cases "\<lfloor>v\<rfloor> = \<lfloor>w\<rfloor>")
  case True
  then show ?thesis using assms by (auto simp: round_half_even_def Let_def)
next
  case False
  then have "\<lfloor>v\<rfloor> < \<lfloor>w\<rfloor>" using floor_mono[OF assms] by simp
  then have "\<lfloor>v\<rfloor> + 1 \<le> \<lfloor>w\<rfloor>" by simp
  then show ?thesis
    using round_half_even_bounds[of v] round_half_even_bounds[of w] by linarith
qed

lemma py_round2_mono: "v \<le> w \<Longrightarrow> py_round2 v \<le> py_round2 w"
  using round_half_even_mono[of "v * 100" "w * 100"]
  by (simp add: py_round2_def divide_right_mono)

lemma py_round2_grid: "py_round2 (of_int k / 100) = of_int k / 100"
  by (simp add: py_round2_def round_half_even_of_int)

lemma py_round2_0: "py_round2 0 = 0"
  using py_round2_grid[of 0] by simp

lemma py_round2_100: "py_round2 100 = 100"
  using py_round2_grid[of 10000] by simp

lemma py_round2_nonneg: "0 \<le> v \<Longrightarrow> 0 \<le> py_round2 v"
  using py_round2_mono[of 0 v] by (simp add: py_round2_0)

lemma py_round2_le_100: "v \<le> 100 \<Longrightarrow> py_round2 v \<le> 100"
  using py_round2_mono[of v 100] by (simp add: py_round2_100)

lemma uniform_bounds: "0 \<le> u \<Longrightarrow> u \<le> 1 \<Longrightarrow> a \<le> b \<Longrightarrow> a \<le> uniform a b u \<and> uniform a b u \<le> b"
proof -
  assume u: "0 \<le> u" "u \<le> 1" and ab: "a \<le> b"
  have "0 \<le> (b - a) * u" using u ab by simp
  moreover have "(b - a) * u \<le> (b - a) * 1" using u ab by (intro mult_left_mono) auto
  ultimately show ?thesis by (simp add: uniform_def)
qed

text \<open>
  C5. The index is the earned value divided by the cumulative spend plus 1, rounded to two
  places. For a non-negative earned value and a non-negative cumulative spend the divisor
  is strictly positive, so the division raises no error (also at spend 0); the quotient is
  non-negative and at most the earned value, and the index is non-negative.
\<close>

theorem C5_cpi_guarded:
  assumes "0 \<le> earned_value" and "0 \<le> cumulative_spend"
  shows "0 < cumulative_spend + 1
       \<and> cpi_of earned_value cumulative_spend
           = Inr (py_round2 (earned_value / (cumulative_spend + 1)))
       \<and> 0 \<le> earned_value / (cumulative_spend + 1)
       \<and> earned_value / (cumulative_spend + 1) \<le> earned_value
       \<and> 0 \<le> py_round2 (earned_value / (cumulative_spend + 1))"
proof -
  have pos: "0 < cumulative_spend + 1" using assms by simp
  have q: "0 \<le> earned_value / (cumulative_spend + 1)" using assms pos by simp
  have "earned_value / (cumulative_spend + 1) \<le> earned_value / 1"
    using assms by (intro divide_left_mono) auto
  then show ?thesis using pos q py_round2_nonneg[OF q] by (simp add: cpi_of_def py_div_def)
qed

theorem C5_cpi_guarded_witness:
  "(0::real) \<le> 1000 \<and> (0::real) \<le> 0 \<and> cpi_of 1000 0 = Inr 1000"
  using C5_cpi_guarded[of 1000 0] py_round2_grid[of 100000] by simp

subsection \<open>One week\<close>

lemma actual_factor_bounds:
  assumes "0 \<le> u" "u \<le> 1"
  shows "3 / 10 \<le> actual_factor ws u" "actual_factor ws u \<le> 21 / 20"
    "ws = ''WS_002'' \<Longrightarrow> actual_factor ws u \<le> 4 / 5"
    "ws = ''WS_001'' \<Longrightarrow> 19 / 20 \<le> actual_factor ws u"
    "ws \<noteq> ''WS_001'' \<Longrightarrow> actual_factor ws u \<le> 1"
  using uniform_bounds[OF assms, of "0.3" "0.8"] uniform_bounds[OF assms, of "0.95" "1.05"]
    uniform_bounds[OF assms, of "0.8" "1.0"]
  by (auto simp: actual_factor_def)

lemma spend_factor_bounds:
  assumes "0 \<le> u" "u \<le> 1"
  shows "9 / 10 \<le> spend_factor ws u" "spend_factor ws u \<le> 3 / 2"
    "ws = ''WS_002'' \<Longrightarrow> 11 / 10 \<le> spend_factor ws u"
  using uniform_bounds[OF assms, of "1.1" "1.5"] uniform_bounds[OF assms, of "0.9" "1.1"]
  by (auto simp: spend_factor_def)

lemma spend_rate_nonneg:
  assumes "0 \<le> u" "u \<le> 1" "0 \<le> bud"
  shows "0 \<le> bud / 24 * spend_factor ws u"
  using spend_factor_bounds(1)[OF assms(1,2), of ws] assms(3) by simp

lemma week_step_unfold:
  "week_step date_str rng ws bud i st =
     (let p = min 100 (current_planned st + 25 / 6);
          a = min 100 (current_actual st + 25 / 6 * actual_factor ws (rng (rng_pos st)));
          s = current_spend st + bud / 24 * spend_factor ws (rng (rng_pos st + 1))
      in case py_div (a / 100 * bud) (s + 1) of
           Inl e \<Rightarrow> Inl e
         | Inr q \<Rightarrow> Inr \<lparr> rng_pos = rng_pos st + 2, current_planned = p, current_actual = a,
                 current_spend = s,
                 progress_records = progress_records st @
                   [\<lparr> week_ending = date_str (7 * i), p_ws_id = ws, planned_pct = py_round2 p,
                      actual_pct = py_round2 a, budget_spent = py_round2 s,
                      schedule_variance = py_round2 (a - p), cpi = py_round2 q \<rparr>] \<rparr>)"
proof -
  consider "ws = ''WS_002''" | "ws = ''WS_001''" | "ws \<noteq> ''WS_002''" "ws \<noteq> ''WS_001''"
    by blast
  then show ?thesis
    by cases
      (simp_all add: week_step_def Let_def cpi_of_def NUM_WEEKS_def actual_factor_def
        spend_factor_def split: sum.splits)
qed

lemma week_step_Inr:
  assumes bud: "0 \<le> bud" and rng: "\<forall>k. 0 \<le> rng k \<and> rng k \<le> 1" and cs: "0 \<le> current_spend st"
  shows "week_step date_str rng ws bud i st = Inr (post date_str rng ws bud i st)"
proof -
  let ?s = "current_spend st + bud / 24 * spend_factor ws (rng (rng_pos st + 1))"
  have "0 \<le> bud / 24 * spend_factor ws (rng (rng_pos st + 1))"
    using rng bud by (intro spend_rate_nonneg) auto
  then have "?s + 1 \<noteq> 0" using cs by linarith
  then show ?thesis
    unfolding week_step_unfold post_def Let_def py_div_def snapshot_def by simp
qed

lemma post_fields:
  "current_planned (post date_str rng ws bud i st) = min 100 (current_planned st + 25 / 6)"
  "current_actual (post date_str rng ws bud i st)
     = min 100 (current_actual st + 25 / 6 * actual_factor ws (rng (rng_pos st)))"
  "current_spend (post date_str rng ws bud i st)
     = current_spend st + bud / 24 * spend_factor ws (rng (rng_pos st + 1))"
  "progress_records (post date_str rng ws bud i st)
     = progress_records st @
         [snapshot (date_str (7 * i)) ws bud
            (current_planned (post date_str rng ws bud i st))
            (current_actual (post date_str rng ws bud i st))
            (current_spend (post date_str rng ws bud i st))]"
  by (simp_all add: post_def Let_def)

lemma snapshot_fields:
  "week_ending (snapshot wk ws bud p a s) = wk"
  "p_ws_id (snapshot wk ws bud p a s) = ws"
  "planned_pct (snapshot wk ws bud p a s) = py_round2 p"
  "actual_pct (snapshot wk ws bud p a s) = py_round2 a"
  "budget_spent (snapshot wk ws bud p a s) = py_round2 s"
  "schedule_variance (snapshot wk ws bud p a s) = py_round2 (a - p)"
  "cpi (snapshot wk ws bud p a s) = py_round2 (a / 100 * bud / (s + 1))"
  by (simp_all add: snapshot_def)

lemma post_ok:
  assumes bud: "0 \<le> bud" and rng: "\<forall>k. 0 \<le> rng k \<and> rng k \<le> 1" and ok: "state_ok st"
  shows "state_ok (post date_str rng ws bud i st)"
    "current_planned st \<le> 100 \<Longrightarrow> current_planned st \<le> current_planned (post date_str rng ws bud i st)"
    "current_planned (post date_str rng ws bud i st) \<le> 100"
    "current_actual (post date_str rng ws bud i st) \<le> 100"
    "current_spend st \<le> current_spend (post date_str rng ws bud i st)"
proof -
  have "3 / 10 \<le> actual_factor ws (rng (rng_pos st))"
    using rng by (intro actual_factor_bounds) auto
  then have f: "0 \<le> actual_factor ws (rng (rng_pos st))" by linarith
  have g: "0 \<le> bud / 24 * spend_factor ws (rng (rng_pos st + 1))"
    using rng bud by (intro spend_rate_nonneg) auto
  show "state_ok (post date_str rng ws bud i st)"
    using ok f g by (simp add: state_ok_def post_fields)
  show "current_planned st \<le> 100 \<Longrightarrow> current_planned st \<le> current_planned (post date_str rng ws bud i st)"
    by (simp add: post_fields)
  show "current_planned (post date_str rng ws bud i st) \<le> 100"
    "current_actual (post date_str rng ws bud i st) \<le> 100"
    by (simp_all add: post_fields)
  show "current_spend st \<le> current_spend (post date_str rng ws bud i st)"
    using g by (simp add: post_fields)
qed

lemma week_loop_Cons:
  assumes "0 \<le> bud" and "\<forall>k. 0 \<le> rng k \<and> rng k \<le> 1" and "state_ok st"
  shows "week_loop date_str rng ws bud (i # rest) st
       = week_loop date_str rng ws bud rest (post date_str rng ws bud i st)"
  using assms by (simp add: week_step_Inr state_ok_def)

lemma week_loop_segment:
  assumes bud: "0 \<le> bud" and rng: "\<forall>k. 0 \<le> rng k \<and> rng k \<le> 1"
      and ok: "state_ok st" and cp: "current_planned st \<le> 100"
  shows "\<exists>st' new. week_loop date_str rng ws bud js st = Inr st'
          \<and> progress_records st' = progress_records st @ new
          \<and> state_ok st'
          \<and> map week_ending new = map (\<lambda>i. date_str (7 * i)) js
          \<and> (\<forall>p\<in>set new. p_ws_id p = ws \<and> 0 \<le> planned_pct p \<and> planned_pct p \<le> 100
                \<and> 0 \<le> actual_pct p \<and> actual_pct p \<le> 100 \<and> 0 \<le> budget_spent p)
          \<and> sorted (py_round2 (current_planned st) # map planned_pct new)
          \<and> sorted (py_round2 (current_spend st) # map budget_spent new)
          \<and> (js \<noteq> [] \<longrightarrow> last new = snapshot (date_str (7 * last js)) ws bud
                (current_planned st') (current_actual st') (current_spend st'))"
  using ok cp
proof (induction js arbitrary: st)
  case Nil
  then show ?case by simp
next
  case (Cons i js)
  let ?s1 = "post date_str rng ws bud i st"
  let ?p = "snapshot (date_str (7 * i)) ws bud (current_planned ?s1) (current_actual ?s1) (current_spend ?s1)"
  note po = post_ok[OF bud rng Cons.prems(1), of date_str ws i]
  have ok1: "state_ok ?s1" and cp1: "current_planned ?s1 \<le> 100" using po by auto
  from Cons.IH[OF ok1 cp1] obtain st' new where
    run: "week_loop date_str rng ws bud js ?s1 = Inr st'"
    and recs: "progress_records st' = progress_records ?s1 @ new"
    and ok': "state_ok st'"
    and wk: "map week_ending new = map (\<lambda>i. date_str (7 * i)) js"
    and bnd: "\<forall>p\<in>set new. p_ws_id p = ws \<and> 0 \<le> planned_pct p \<and> planned_pct p \<le> 100
                \<and> 0 \<le> actual_pct p \<and> actual_pct p \<le> 100 \<and> 0 \<le> budget_spent p"
    and s1: "sorted (py_round2 (current_planned ?s1) # map planned_pct new)"
    and s2: "sorted (py_round2 (current_spend ?s1) # map budget_spent new)"
    and lst: "js \<noteq> [] \<longrightarrow> last new = snapshot (date_str (7 * last js)) ws bud
                (current_planned st') (current_actual st') (current_spend st')"
    by blast
  have run': "week_loop date_str rng ws bud (i # js) st = Inr st'"
    using run week_loop_Cons[OF bud rng Cons.prems(1)] by simp
  have recs': "progress_records st' = progress_records st @ (?p # new)"
    using recs by (simp add: post_fields(4))
  have pb: "p_ws_id ?p = ws \<and> 0 \<le> planned_pct ?p \<and> planned_pct ?p \<le> 100
        \<and> 0 \<le> actual_pct ?p \<and> actual_pct ?p \<le> 100 \<and> 0 \<le> budget_spent ?p"
    using ok1 po(3,4)
    by (simp add: snapshot_fields state_ok_def py_round2_nonneg py_round2_le_100)
  have m1: "py_round2 (current_planned st) \<le> planned_pct ?p"
    using po(2)[OF Cons.prems(2)] by (simp add: snapshot_fields py_round2_mono)
  have m2: "py_round2 (current_spend st) \<le> budget_spent ?p"
    using po(5) by (simp add: snapshot_fields py_round2_mono)
  have srt1: "sorted (py_round2 (current_planned st) # map planned_pct (?p # new))"
    using s1 m1 by (auto simp: snapshot_fields)
  have srt2: "sorted (py_round2 (current_spend st) # map budget_spent (?p # new))"
    using s2 m2 by (auto simp: snapshot_fields)
  have lst': "last (?p # new) = snapshot (date_str (7 * last (i # js))) ws bud
                (current_planned st') (current_actual st') (current_spend st')"
  proof (cases "js = []")
    case True
    then have "st' = ?s1" "new = []" using run wk by simp_all
    then show ?thesis using True by simp
  next
    case False
    then have "new \<noteq> []" using wk by auto
    then show ?thesis using False lst by simp
  qed
  show ?case
    apply (rule exI[of _ st'], rule exI[of _ "?p # new"])
    using run' recs' ok' wk bnd pb srt1 srt2 lst'
    by (simp add: snapshot_fields(1))
qed

subsection \<open>The loops\<close>

lemma min_100_absorb: "0 \<le> b \<Longrightarrow> min (100::real) (min 100 a + b) = min 100 (a + b)"
  by (auto simp: min_def)

lemma week_loop_final:
  assumes bud: "0 \<le> bud" and rng: "\<forall>k. 0 \<le> rng k \<and> rng k \<le> 1"
      and ok: "state_ok st" and cp: "current_planned st \<le> 100"
      and run: "week_loop date_str rng ws bud js st = Inr st'"
  shows "current_planned st' = min 100 (current_planned st + 25 / 6 * real (length js))
       \<and> (js = [] \<or> current_actual st' \<le> 100)
       \<and> (ws = ''WS_002'' \<longrightarrow>
            current_actual st' \<le> current_actual st + 10 / 3 * real (length js)
            \<and> current_spend st + 11 / 10 * (bud / 24) * real (length js) \<le> current_spend st')
       \<and> (ws = ''WS_001'' \<longrightarrow>
            min 100 (current_actual st + 95 / 24 * real (length js)) \<le> current_actual st')"
  using ok cp run
proof (induction js arbitrary: st)
  case Nil
  then show ?case by (auto simp: min_def)
next
  case (Cons i js)
  let ?s1 = "post date_str rng ws bud i st"
  let ?n = "real (length js)"
  note po = post_ok[OF bud rng Cons.prems(1), of date_str ws i]
  have run1: "week_loop date_str rng ws bud js ?s1 = Inr st'"
    using Cons.prems(3) week_loop_Cons[OF bud rng Cons.prems(1), of date_str ws i js] by simp
  note ih = Cons.IH[OF po(1) po(3) run1]
  have u: "0 \<le> rng (rng_pos st)" "rng (rng_pos st) \<le> 1"
    "0 \<le> rng (rng_pos st + 1)" "rng (rng_pos st + 1) \<le> 1"
    using rng by auto
  have len: "real (length (i # js)) = ?n + 1" by simp
  have p: "current_planned st' = min 100 (current_planned st + 25 / 6 * real (length (i # js)))"
  proof -
    have "current_planned st' = min 100 (min 100 (current_planned st + 25 / 6) + 25 / 6 * ?n)"
      using ih by (simp add: post_fields)
    also have "\<dots> = min 100 (current_planned st + 25 / 6 + 25 / 6 * ?n)"
      by (rule min_100_absorb) simp
    also have "current_planned st + 25 / 6 + 25 / 6 * ?n
          = current_planned st + 25 / 6 * real (length (i # js))"
      unfolding len by (simp add: distrib_left)
    finally show ?thesis .
  qed
  have a100: "current_actual st' \<le> 100"
  proof (cases "js = []")
    case True
    then have "st' = ?s1" using run1 by simp
    then show ?thesis using po(4) by simp
  next
    case False
    then show ?thesis using ih by simp
  qed
  have r: "ws = ''WS_002'' \<longrightarrow>
            current_actual st' \<le> current_actual st + 10 / 3 * real (length (i # js))
            \<and> current_spend st + 11 / 10 * (bud / 24) * real (length (i # js)) \<le> current_spend st'"
  proof
    assume w: "ws = ''WS_002''"
    have f: "actual_factor ws (rng (rng_pos st)) \<le> 4 / 5"
      using actual_factor_bounds(3)[OF u(1,2) w] .
    have g: "11 / 10 \<le> spend_factor ws (rng (rng_pos st + 1))"
      using spend_factor_bounds(3)[OF u(3,4) w] .
    have a1: "current_actual ?s1 \<le> current_actual st + 10 / 3"
      using f by (simp add: post_fields min_def)
    have "bud / 24 * (11 / 10) \<le> bud / 24 * spend_factor ws (rng (rng_pos st + 1))"
      using g bud by (intro mult_left_mono) auto
    then have s1: "current_spend st + 11 / 10 * (bud / 24) \<le> current_spend ?s1"
      by (simp add: post_fields)
    have e1: "10 / 3 * (?n + 1) = 10 / 3 + 10 / 3 * ?n" by (simp add: distrib_left)
    have e2: "11 / 10 * (bud / 24) * (?n + 1) = 11 / 10 * (bud / 24) + 11 / 10 * (bud / 24) * ?n"
      by (simp add: distrib_left)
    have "current_actual st' \<le> current_actual ?s1 + 10 / 3 * ?n"
      "current_spend ?s1 + 11 / 10 * (bud / 24) * ?n \<le> current_spend st'"
      using ih w by auto
    then show "current_actual st' \<le> current_actual st + 10 / 3 * real (length (i # js))
            \<and> current_spend st + 11 / 10 * (bud / 24) * real (length (i # js)) \<le> current_spend st'"
      unfolding len e1 e2 using a1 s1 by linarith
  qed
  have g: "ws = ''WS_001'' \<longrightarrow>
            min 100 (current_actual st + 95 / 24 * real (length (i # js))) \<le> current_actual st'"
  proof
    assume w: "ws = ''WS_001''"
    have f: "19 / 20 \<le> actual_factor ws (rng (rng_pos st))"
      using actual_factor_bounds(4)[OF u(1,2) w] .
    have a1: "min 100 (current_actual st + 95 / 24) \<le> current_actual ?s1"
      using f by (simp add: post_fields min_def)
    have "min 100 (current_actual ?s1 + 95 / 24 * ?n) \<le> current_actual st'"
      using ih w by auto
    moreover have "min 100 (min 100 (current_actual st + 95 / 24) + 95 / 24 * ?n)
          \<le> min 100 (current_actual ?s1 + 95 / 24 * ?n)"
      using a1 by (auto simp: min_def)
    moreover have "min 100 (min 100 (current_actual st + 95 / 24) + 95 / 24 * ?n)
          = min 100 (current_actual st + 95 / 24 + 95 / 24 * ?n)"
      by (rule min_100_absorb) simp
    moreover have "current_actual st + 95 / 24 + 95 / 24 * ?n
          = current_actual st + 95 / 24 * real (length (i # js))"
      unfolding len by (simp add: distrib_left)
    ultimately show "min 100 (current_actual st + 95 / 24 * real (length (i # js))) \<le> current_actual st'"
      by (simp only:)
  qed
  show ?case using p a100 r g by simp
qed

lemma week_loop_not_ahead:
  assumes bud: "0 \<le> bud" and rng: "\<forall>k. 0 \<le> rng k \<and> rng k \<le> 1"
      and ws: "ws \<noteq> ''WS_001''"
      and ok: "state_ok st" and le: "current_actual st \<le> current_planned st"
      and run: "week_loop date_str rng ws bud js st = Inr st'"
  shows "\<exists>new. progress_records st' = progress_records st @ new \<and> (\<forall>p\<in>set new. not_ahead p)"
  using ok le run
proof (induction js arbitrary: st)
  case Nil
  then show ?case by simp
next
  case (Cons i js)
  let ?s1 = "post date_str rng ws bud i st"
  let ?p = "snapshot (date_str (7 * i)) ws bud (current_planned ?s1)
            (current_actual ?s1) (current_spend ?s1)"
  note po = post_ok[OF bud rng Cons.prems(1), of date_str ws i]
  have run1: "week_loop date_str rng ws bud js ?s1 = Inr st'"
    using Cons.prems(3) week_loop_Cons[OF bud rng Cons.prems(1), of date_str ws i js] by simp
  have u: "0 \<le> rng (rng_pos st)" "rng (rng_pos st) \<le> 1" using rng by auto
  have f: "actual_factor ws (rng (rng_pos st)) \<le> 1"
    using actual_factor_bounds(5)[OF u ws] .
  have le1: "current_actual ?s1 \<le> current_planned ?s1"
    using f Cons.prems(2) by (simp add: post_fields min_def)
  have p: "not_ahead ?p"
    using le1 py_round2_mono[of "current_actual ?s1 - current_planned ?s1" 0]
    by (simp add: not_ahead_def snapshot_fields py_round2_mono py_round2_0)
  from Cons.IH[OF po(1) le1 run1] obtain new where
    n: "progress_records st' = progress_records ?s1 @ new" "\<forall>p\<in>set new. not_ahead p"
    by blast
  have "progress_records st' = progress_records st @ (?p # new)"
    using n(1) by (simp add: post_fields(4))
  then show ?case using p n(2) by (intro exI[of _ "?p # new"]) simp
qed

lemma reset_fields:
  "current_planned (reset st) = 0" "current_actual (reset st) = 0" "current_spend (reset st) = 0"
  "progress_records (reset st) = progress_records st" "state_ok (reset st)"
  by (simp_all add: reset_def state_ok_def)

lemma ws_loop_segments:
  assumes rng: "\<forall>k. 0 \<le> rng k \<and> rng k \<le> 1"
      and buds: "\<forall>w\<in>set wsl. 0 \<le> budget w"
      and pk: "distinct (map ws_id wsl)"
  shows "\<exists>st' new. ws_loop date_str rng wsl st = Inr st'
          \<and> progress_records st' = progress_records st @ new
          \<and> (\<forall>p\<in>set new. p_ws_id p \<in> ws_id ` set wsl)
          \<and> (\<forall>w\<in>set wsl. \<exists>s0 s1.
                week_loop date_str rng (ws_id w) (budget w) [0..<NUM_WEEKS] (reset s0) = Inr s1
                \<and> progress_records s1
                    = progress_records (reset s0) @ filter (\<lambda>p. p_ws_id p = ws_id w) new)"
  using buds pk
proof (induction wsl arbitrary: st)
  case Nil
  then show ?case by simp
next
  case (Cons w rest)
  have bud: "0 \<le> budget w" using Cons.prems(1) by simp
  obtain s1 seg where
    run: "week_loop date_str rng (ws_id w) (budget w) [0..<NUM_WEEKS] (reset st) = Inr s1"
    and recs: "progress_records s1 = progress_records (reset st) @ seg"
    and own: "\<forall>p\<in>set seg. p_ws_id p = ws_id w"
    using week_loop_segment[OF bud rng reset_fields(5), of st date_str "ws_id w" "[0..<NUM_WEEKS]"]
    by (auto simp: reset_fields)
  have buds': "\<forall>w\<in>set rest. 0 \<le> budget w" and pk': "distinct (map ws_id rest)"
    using Cons.prems by auto
  from Cons.IH[OF buds' pk', of s1] obtain st' new where
    run': "ws_loop date_str rng rest s1 = Inr st'"
    and recs': "progress_records st' = progress_records s1 @ new"
    and ids: "\<forall>p\<in>set new. p_ws_id p \<in> ws_id ` set rest"
    and segs: "\<forall>v\<in>set rest. \<exists>s0 s1.
                week_loop date_str rng (ws_id v) (budget v) [0..<NUM_WEEKS] (reset s0) = Inr s1
                \<and> progress_records s1
                    = progress_records (reset s0) @ filter (\<lambda>p. p_ws_id p = ws_id v) new"
    by blast
  have fresh: "ws_id w \<notin> ws_id ` set rest" using Cons.prems(2) by simp
  have a: "ws_loop date_str rng (w # rest) st = Inr st'"
    using run run' by (simp add: reset_def)
  have b: "progress_records st' = progress_records st @ (seg @ new)"
    using recs recs' by (simp add: reset_fields)
  have c: "\<forall>p\<in>set (seg @ new). p_ws_id p \<in> ws_id ` set (w # rest)"
    using own ids by auto
  have fw: "filter (\<lambda>p. p_ws_id p = ws_id w) (seg @ new) = seg"
  proof -
    have "\<forall>p\<in>set new. p_ws_id p \<noteq> ws_id w"
      using ids fresh by metis
    then have "filter (\<lambda>p. p_ws_id p = ws_id w) new = []"
      by (simp add: filter_empty_conv)
    moreover have "filter (\<lambda>p. p_ws_id p = ws_id w) seg = seg"
      using own by (auto simp: filter_id_conv)
    ultimately show ?thesis by simp
  qed
  have fv: "filter (\<lambda>p. p_ws_id p = ws_id v) (seg @ new) = filter (\<lambda>p. p_ws_id p = ws_id v) new"
    if "v \<in> set rest" for v
  proof -
    have "ws_id v \<noteq> ws_id w" using that fresh by (metis image_eqI)
    then have "filter (\<lambda>p. p_ws_id p = ws_id v) seg = []"
      using own by (auto simp: filter_empty_conv)
    then show ?thesis by simp
  qed
  have d: "\<forall>v\<in>set (w # rest). \<exists>s0 s1.
                week_loop date_str rng (ws_id v) (budget v) [0..<NUM_WEEKS] (reset s0) = Inr s1
                \<and> progress_records s1
                    = progress_records (reset s0) @ filter (\<lambda>p. p_ws_id p = ws_id v) (seg @ new)"
  proof
    fix v assume v: "v \<in> set (w # rest)"
    show "\<exists>s0 s1. week_loop date_str rng (ws_id v) (budget v) [0..<NUM_WEEKS] (reset s0) = Inr s1
                \<and> progress_records s1
                    = progress_records (reset s0) @ filter (\<lambda>p. p_ws_id p = ws_id v) (seg @ new)"
    proof (cases "v = w")
      case True
      then show ?thesis using run recs fw by auto
    next
      case False
      then have "v \<in> set rest" using v by simp
      then show ?thesis using segs fv by auto
    qed
  qed
  show ?case using a b c d by blast
qed

lemma py_round2_numerals:
  "py_round2 80 = 80" "py_round2 (- 20) = - 20" "py_round2 (- 5) = - 5"
  "py_round2 (73 / 100) = 73 / 100"
  using py_round2_grid[of 8000] py_round2_grid[of "- 2000"] py_round2_grid[of "- 500"]
    py_round2_grid[of 73]
  by simp_all

lemma at_risk_cpi_bound:
  fixes bud a s :: real
  assumes bud: "0 \<le> bud" and a: "0 \<le> a" "a \<le> 80" and s: "11 / 10 * bud \<le> s"
  shows "a / 100 * bud / (s + 1) \<le> 73 / 100"
proof -
  have pos: "0 < s + 1" using bud s by linarith
  have "a / 100 * bud \<le> 4 / 5 * bud"
    using a bud by (intro mult_right_mono) auto
  also have "\<dots> \<le> 73 / 100 * (s + 1)" using bud s by (simp add: distrib_left)
  finally show ?thesis using pos by (simp add: pos_divide_le_eq)
qed

lemma segment_props:
  assumes bud: "0 \<le> bud" and rng: "\<forall>k. 0 \<le> rng k \<and> rng k \<le> 1"
      and run: "week_loop date_str rng ws bud [0..<NUM_WEEKS] (reset s0) = Inr s1"
      and recs: "progress_records s1 = progress_records (reset s0) @ seg"
  shows "map week_ending seg = map (\<lambda>i. date_str (7 * i)) [0..<NUM_WEEKS]"
    and "\<forall>p\<in>set seg. 0 \<le> planned_pct p \<and> planned_pct p \<le> 100
                \<and> 0 \<le> actual_pct p \<and> actual_pct p \<le> 100 \<and> 0 \<le> budget_spent p"
    and "sorted (map planned_pct seg)" and "sorted (map budget_spent seg)"
    and "ws \<noteq> ''WS_001'' \<Longrightarrow> \<forall>p\<in>set seg. not_ahead p"
    and "seg \<noteq> []"
    and "ws = ''WS_002'' \<Longrightarrow> actual_pct (last seg) < planned_pct (last seg)
            \<and> schedule_variance (last seg) < 0 \<and> cpi (last seg) < 1"
    and "ws = ''WS_001'' \<Longrightarrow> - 5 \<le> schedule_variance (last seg) \<and> schedule_variance (last seg) \<le> 0"
proof -
  let ?st = "reset s0"
  have ok: "state_ok ?st" and cp0: "current_planned ?st \<le> 100"
    by (simp_all add: reset_fields)
  from week_loop_segment[OF bud rng ok cp0, of date_str ws "[0..<NUM_WEEKS]"]
  obtain st' new where
    run': "week_loop date_str rng ws bud [0..<NUM_WEEKS] ?st = Inr st'"
    and recs': "progress_records st' = progress_records ?st @ new"
    and ok': "state_ok st'"
    and wk: "map week_ending new = map (\<lambda>i. date_str (7 * i)) [0..<NUM_WEEKS]"
    and bnd: "\<forall>p\<in>set new. p_ws_id p = ws \<and> 0 \<le> planned_pct p \<and> planned_pct p \<le> 100
                \<and> 0 \<le> actual_pct p \<and> actual_pct p \<le> 100 \<and> 0 \<le> budget_spent p"
    and s1: "sorted (py_round2 (current_planned ?st) # map planned_pct new)"
    and s2: "sorted (py_round2 (current_spend ?st) # map budget_spent new)"
    and lst: "[0..<NUM_WEEKS] \<noteq> [] \<longrightarrow> last new = snapshot (date_str (7 * last [0..<NUM_WEEKS])) ws bud
                (current_planned st') (current_actual st') (current_spend st')"
    by blast
  have st': "st' = s1" using run run' by simp
  have new: "new = seg" using recs recs' st' by simp
  show "map week_ending seg = map (\<lambda>i. date_str (7 * i)) [0..<NUM_WEEKS]"
    using wk new by simp
  show "\<forall>p\<in>set seg. 0 \<le> planned_pct p \<and> planned_pct p \<le> 100
                \<and> 0 \<le> actual_pct p \<and> actual_pct p \<le> 100 \<and> 0 \<le> budget_spent p"
    using bnd new by simp
  show "sorted (map planned_pct seg)" using s1 new by simp
  show "sorted (map budget_spent seg)" using s2 new by simp
  show "\<forall>p\<in>set seg. not_ahead p" if "ws \<noteq> ''WS_001''"
  proof -
    from week_loop_not_ahead[OF bud rng that ok _ run]
    obtain new2 where "progress_records s1 = progress_records ?st @ new2" "\<forall>p\<in>set new2. not_ahead p"
      by (auto simp: reset_fields)
    then show ?thesis using recs by simp
  qed
  have len: "length seg = NUM_WEEKS"
    using wk new by (metis length_map length_upt minus_nat.diff_0)
  then show ne: "seg \<noteq> []" by (auto simp: NUM_WEEKS_def)
  have last_seg: "last seg = snapshot (date_str (7 * last [0..<NUM_WEEKS])) ws bud
                (current_planned s1) (current_actual s1) (current_spend s1)"
    using lst new st' by (simp add: NUM_WEEKS_def)
  note fin = week_loop_final[OF bud rng ok cp0 run]
  have cp1: "current_planned s1 = 100"
    using fin by (simp add: reset_fields NUM_WEEKS_def)
  have a100: "current_actual s1 \<le> 100"
    using fin by (simp add: NUM_WEEKS_def)
  have a0: "0 \<le> current_actual s1" using ok' st' by (simp add: state_ok_def)
  show "actual_pct (last seg) < planned_pct (last seg)
            \<and> schedule_variance (last seg) < 0 \<and> cpi (last seg) < 1" if w: "ws = ''WS_002''"
  proof -
    have a80: "current_actual s1 \<le> 80"
      using fin w by (simp add: reset_fields NUM_WEEKS_def)
    have sp: "11 / 10 * bud \<le> current_spend s1"
      using fin w by (simp add: reset_fields NUM_WEEKS_def)
    have "py_round2 (current_actual s1) \<le> 80"
      using py_round2_mono[OF a80] by (simp add: py_round2_numerals)
    then have x: "actual_pct (last seg) < planned_pct (last seg)"
      by (simp add: last_seg snapshot_fields cp1 py_round2_100)
    have "py_round2 (current_actual s1 - 100) \<le> - 20"
      using py_round2_mono[of "current_actual s1 - 100" "- 20"] a80
      by (simp add: py_round2_numerals)
    then have y: "schedule_variance (last seg) < 0"
      by (simp add: last_seg snapshot_fields cp1)
    have "py_round2 (current_actual s1 / 100 * bud / (current_spend s1 + 1)) \<le> 73 / 100"
      using py_round2_mono[OF at_risk_cpi_bound[OF bud a0 a80 sp]]
      by (simp add: py_round2_numerals)
    then have z: "cpi (last seg) < 1"
      by (simp add: last_seg snapshot_fields)
    show ?thesis using x y z by simp
  qed
  show "- 5 \<le> schedule_variance (last seg) \<and> schedule_variance (last seg) \<le> 0"
    if w: "ws = ''WS_001''"
  proof -
    have a95: "95 \<le> current_actual s1"
      using fin w by (simp add: reset_fields NUM_WEEKS_def)
    have "py_round2 (- 5) \<le> py_round2 (current_actual s1 - 100)"
      using a95 by (intro py_round2_mono) simp
    moreover have "py_round2 (current_actual s1 - 100) \<le> py_round2 0"
      using a100 by (intro py_round2_mono) simp
    ultimately show ?thesis
      by (simp add: last_seg snapshot_fields cp1 py_round2_numerals py_round2_0)
  qed
qed

lemma workstreams_data_facts:
  "\<forall>w\<in>set workstreams_data. 0 \<le> budget w" "distinct (map ws_id workstreams_data)"
  by (simp_all add: workstreams_data_def)

lemma generate_progress_segments:
  assumes rng: "\<forall>k. 0 \<le> rng k \<and> rng k \<le> 1"
  shows "\<exists>recs. generate_progress date_str rng = Inr recs
          \<and> (\<forall>p\<in>set recs. p_ws_id p \<in> ws_id ` set workstreams_data)
          \<and> (\<forall>w\<in>set workstreams_data. \<exists>s0 s1.
                week_loop date_str rng (ws_id w) (budget w) [0..<NUM_WEEKS] (reset s0) = Inr s1
                \<and> progress_records s1
                    = progress_records (reset s0) @ filter (\<lambda>p. p_ws_id p = ws_id w) recs)"
proof -
  let ?init = "\<lparr> rng_pos = 0, current_planned = 0, current_actual = 0, current_spend = 0,
               progress_records = [] \<rparr>"
  from ws_loop_segments[OF rng workstreams_data_facts, of date_str ?init]
  obtain st' new where
    "ws_loop date_str rng workstreams_data ?init = Inr st'"
    "progress_records st' = progress_records ?init @ new"
    "\<forall>p\<in>set new. p_ws_id p \<in> ws_id ` set workstreams_data"
    "\<forall>w\<in>set workstreams_data. \<exists>s0 s1.
                week_loop date_str rng (ws_id w) (budget w) [0..<NUM_WEEKS] (reset s0) = Inr s1
                \<and> progress_records s1
                    = progress_records (reset s0) @ filter (\<lambda>p. p_ws_id p = ws_id w) new"
    by blast
  then show ?thesis by (simp add: generate_progress_def)
qed

subsection \<open>The generated history\<close>

text \<open>
  C6. Whatever the draws (each \<open>random()\<close> in \<open>[0, 1]\<close>, so each multiplier in its
  persona's range), the generator returns its records without an error; every record has
  \<open>planned_pct\<close> and \<open>actual_pct\<close> in \<open>[0, 100]\<close> and \<open>budget_spent\<close> at least 0; and
  the records of each workstream are those of weeks 0 to 23 in this order, with
  \<open>planned_pct\<close> and \<open>budget_spent\<close> non-decreasing along them.
\<close>

theorem C6_snapshot_invariants:
  assumes rng: "\<forall>k. 0 \<le> rng k \<and> rng k \<le> 1"
  shows "\<exists>recs. generate_progress date_str rng = Inr recs
     \<and> (\<forall>p\<in>set recs. 0 \<le> planned_pct p \<and> planned_pct p \<le> 100
            \<and> 0 \<le> actual_pct p \<and> actual_pct p \<le> 100 \<and> 0 \<le> budget_spent p)
     \<and> (\<forall>w\<in>set workstreams_data.
           map week_ending (filter (\<lambda>p. p_ws_id p = ws_id w) recs)
              = map (\<lambda>i. date_str (7 * i)) [0..<NUM_WEEKS]
           \<and> sorted (map planned_pct (filter (\<lambda>p. p_ws_id p = ws_id w) recs))
           \<and> sorted (map budget_spent (filter (\<lambda>p. p_ws_id p = ws_id w) recs)))"
proof -
  from generate_progress_segments[OF rng, of date_str] obtain recs where
    gen: "generate_progress date_str rng = Inr recs"
    and ids: "\<forall>p\<in>set recs. p_ws_id p \<in> ws_id ` set workstreams_data"
    and segs: "\<forall>w\<in>set workstreams_data. \<exists>s0 s1.
                week_loop date_str rng (ws_id w) (budget w) [0..<NUM_WEEKS] (reset s0) = Inr s1
                \<and> progress_records s1
                    = progress_records (reset s0) @ filter (\<lambda>p. p_ws_id p = ws_id w) recs"
    by blast
  have per: "map week_ending (filter (\<lambda>p. p_ws_id p = ws_id w) recs)
              = map (\<lambda>i. date_str (7 * i)) [0..<NUM_WEEKS]
           \<and> sorted (map planned_pct (filter (\<lambda>p. p_ws_id p = ws_id w) recs))
           \<and> sorted (map budget_spent (filter (\<lambda>p. p_ws_id p = ws_id w) recs))
           \<and> (\<forall>p\<in>set (filter (\<lambda>p. p_ws_id p = ws_id w) recs).
                 0 \<le> planned_pct p \<and> planned_pct p \<le> 100
                 \<and> 0 \<le> actual_pct p \<and> actual_pct p \<le> 100 \<and> 0 \<le> budget_spent p)"
    if w: "w \<in> set workstreams_data" for w
  proof -
    from segs w obtain s0 s1 where
      run: "week_loop date_str rng (ws_id w) (budget w) [0..<NUM_WEEKS] (reset s0) = Inr s1"
      and recs: "progress_records s1
                    = progress_records (reset s0) @ filter (\<lambda>p. p_ws_id p = ws_id w) recs"
      by blast
    have bud: "0 \<le> budget w" using w workstreams_data_facts(1) by blast
    show ?thesis
      using segment_props(1-4)[OF bud rng run recs] by blast
  qed
  have all: "0 \<le> planned_pct p \<and> planned_pct p \<le> 100
            \<and> 0 \<le> actual_pct p \<and> actual_pct p \<le> 100 \<and> 0 \<le> budget_spent p"
    if p: "p \<in> set recs" for p
  proof -
    from ids p obtain w where w: "w \<in> set workstreams_data" "p_ws_id p = ws_id w" by auto
    then have "p \<in> set (filter (\<lambda>p. p_ws_id p = ws_id w) recs)" using p by simp
    then show ?thesis using per[OF w(1)] by blast
  qed
  show ?thesis using gen per all by blast
qed

theorem C6_snapshot_invariants_witness:
  "\<exists>recs. generate_progress demo_date_str demo_rng = Inr recs
     \<and> (\<forall>p\<in>set recs. 0 \<le> planned_pct p \<and> planned_pct p \<le> 100
            \<and> 0 \<le> actual_pct p \<and> actual_pct p \<le> 100 \<and> 0 \<le> budget_spent p)
     \<and> (\<forall>w\<in>set workstreams_data.
           map week_ending (filter (\<lambda>p. p_ws_id p = ws_id w) recs)
              = map (\<lambda>i. demo_date_str (7 * i)) [0..<NUM_WEEKS]
           \<and> sorted (map planned_pct (filter (\<lambda>p. p_ws_id p = ws_id w) recs))
           \<and> sorted (map budget_spent (filter (\<lambda>p. p_ws_id p = ws_id w) recs)))"
proof -
  have "\<forall>k. 0 \<le> demo_rng k \<and> demo_rng k \<le> 1" by (simp add: demo_rng_def)
  then show ?thesis by (rule C6_snapshot_invariants)
qed

text \<open>
  C7. Whatever the draws, the at-risk workstream WS_002 ends (last of its 24 records) with
  \<open>actual_pct\<close> strictly below \<open>planned_pct\<close>, a strictly negative schedule variance and
  a \<open>cpi\<close> strictly below 1; and the on-track workstream WS_001 ends with a schedule
  variance between -5 and 0.
\<close>

theorem C7_persona_terminal:
  assumes rng: "\<forall>k. 0 \<le> rng k \<and> rng k \<le> 1"
  shows "\<exists>recs at_risk on_track.
       generate_progress date_str rng = Inr recs
     \<and> at_risk = filter (\<lambda>p. p_ws_id p = ''WS_002'') recs
     \<and> on_track = filter (\<lambda>p. p_ws_id p = ''WS_001'') recs
     \<and> length at_risk = NUM_WEEKS \<and> length on_track = NUM_WEEKS
     \<and> actual_pct (last at_risk) < planned_pct (last at_risk)
     \<and> schedule_variance (last at_risk) < 0
     \<and> cpi (last at_risk) < 1
     \<and> - 5 \<le> schedule_variance (last on_track)
     \<and> schedule_variance (last on_track) \<le> 0"
proof -
  from generate_progress_segments[OF rng, of date_str] obtain recs where
    gen: "generate_progress date_str rng = Inr recs"
    and segs: "\<forall>w\<in>set workstreams_data. \<exists>s0 s1.
                week_loop date_str rng (ws_id w) (budget w) [0..<NUM_WEEKS] (reset s0) = Inr s1
                \<and> progress_records s1
                    = progress_records (reset s0) @ filter (\<lambda>p. p_ws_id p = ws_id w) recs"
    by blast
  let ?w1 = "\<lparr> ws_id = ''WS_001'', name = ''Finance (FICO)'', owner = ''Sarah J.'',
        budget = 1500000, complexity = ''High'' \<rparr>"
  let ?w2 = "\<lparr> ws_id = ''WS_002'', name = ''Supply Chain (MM/SD)'', owner = ''Mike R.'',
        budget = 2200000, complexity = ''High'' \<rparr>"
  have m1: "?w1 \<in> set workstreams_data" and m2: "?w2 \<in> set workstreams_data"
    by (simp_all add: workstreams_data_def)
  from segs m2 obtain a0 a1 where
    runa: "week_loop date_str rng ''WS_002'' 2200000 [0..<NUM_WEEKS] (reset a0) = Inr a1"
    and reca: "progress_records a1
                 = progress_records (reset a0) @ filter (\<lambda>p. p_ws_id p = ''WS_002'') recs"
    by fastforce
  from segs m1 obtain b0 b1 where
    runb: "week_loop date_str rng ''WS_001'' 1500000 [0..<NUM_WEEKS] (reset b0) = Inr b1"
    and recb: "progress_records b1
                 = progress_records (reset b0) @ filter (\<lambda>p. p_ws_id p = ''WS_001'') recs"
    by fastforce
  note pa = segment_props[OF _ rng runa reca]
  note pb = segment_props[OF _ rng runb recb]
  have la: "length (filter (\<lambda>p. p_ws_id p = ''WS_002'') recs) = NUM_WEEKS"
    using arg_cong[OF pa(1), of length] by simp
  have lb: "length (filter (\<lambda>p. p_ws_id p = ''WS_001'') recs) = NUM_WEEKS"
    using arg_cong[OF pb(1), of length] by simp
  show ?thesis using gen la lb pa(7) pb(8) by simp
qed

theorem C7_persona_terminal_witness:
  "\<exists>recs at_risk on_track.
       generate_progress demo_date_str demo_rng = Inr recs
     \<and> at_risk = filter (\<lambda>p. p_ws_id p = ''WS_002'') recs
     \<and> on_track = filter (\<lambda>p. p_ws_id p = ''WS_001'') recs
     \<and> length at_risk = NUM_WEEKS \<and> length on_track = NUM_WEEKS
     \<and> actual_pct (last at_risk) < planned_pct (last at_risk)
     \<and> schedule_variance (last at_risk) < 0
     \<and> cpi (last at_risk) < 1
     \<and> - 5 \<le> schedule_variance (last on_track)
     \<and> schedule_variance (last on_track) \<le> 0"
proof -
  have "\<forall>k. 0 \<le> demo_rng k \<and> demo_rng k \<le> 1" by (simp add: demo_rng_def)
  then show ?thesis by (rule C7_persona_terminal)
qed

text \<open>
  C10. Whatever the draws, every record of a workstream other than the on-track WS_001, in
  every week, has \<open>actual_pct\<close> at most \<open>planned_pct\<close> and a schedule variance of at
  most 0: a positive schedule variance occurs for WS_001 only.
\<close>

theorem C10_only_on_track_ahead:
  assumes rng: "\<forall>k. 0 \<le> rng k \<and> rng k \<le> 1"
  shows "\<exists>recs. generate_progress date_str rng = Inr recs
     \<and> (\<forall>p\<in>set recs. p_ws_id p \<noteq> ''WS_001'' \<longrightarrow>
            actual_pct p \<le> planned_pct p \<and> schedule_variance p \<le> 0)"
proof -
  from generate_progress_segments[OF rng, of date_str] obtain recs where
    gen: "generate_progress date_str rng = Inr recs"
    and ids: "\<forall>p\<in>set recs. p_ws_id p \<in> ws_id ` set workstreams_data"
    and segs: "\<forall>w\<in>set workstreams_data. \<exists>s0 s1.
                week_loop date_str rng (ws_id w) (budget w) [0..<NUM_WEEKS] (reset s0) = Inr s1
                \<and> progress_records s1
                    = progress_records (reset s0) @ filter (\<lambda>p. p_ws_id p = ws_id w) recs"
    by blast
  have "actual_pct p \<le> planned_pct p \<and> schedule_variance p \<le> 0"
    if p: "p \<in> set recs" and n: "p_ws_id p \<noteq> ''WS_001''" for p
  proof -
    from ids p obtain w where w: "w \<in> set workstreams_data" "p_ws_id p = ws_id w" by auto
    from segs w obtain s0 s1 where
      run: "week_loop date_str rng (ws_id w) (budget w) [0..<NUM_WEEKS] (reset s0) = Inr s1"
      and recs: "progress_records s1
                    = progress_records (reset s0) @ filter (\<lambda>p. p_ws_id p = ws_id w) recs"
      by blast
    have bud: "0 \<le> budget w" using w workstreams_data_facts(1) by blast
    have "ws_id w \<noteq> ''WS_001''" using n w by simp
    from segment_props(5)[OF bud rng run recs this]
    have "not_ahead p" using p w by simp
    then show ?thesis by (simp add: not_ahead_def)
  qed
  then show ?thesis using gen by blast
qed

theorem C10_only_on_track_ahead_witness:
  "\<exists>recs. generate_progress demo_date_str demo_rng = Inr recs
     \<and> (\<forall>p\<in>set recs. p_ws_id p \<noteq> ''WS_001'' \<longrightarrow>
            actual_pct p \<le> planned_pct p \<and> schedule_variance p \<le> 0)"
proof -
  have "\<forall>k. 0 \<le> demo_rng k \<and> demo_rng k \<le> 1" by (simp add: demo_rng_def)
  then show ?thesis by (rule C10_only_on_track_ahead)
qed

text \<open>
  The exception for WS_001 is needed: with the largest draw its first week is ahead of plan,
  by 0.21 points.
\<close>

lemma on_track_first_week_ahead:
  "\<exists>st'. week_step date_str (\<lambda>k. 1) ''WS_001'' 1500000 0
            \<lparr> rng_pos = 0, current_planned = 0, current_actual = 0, current_spend = 0,
              progress_records = [] \<rparr> = Inr st'
         \<and> map schedule_variance (progress_records st') = [21 / 100]"
  by (simp add: week_step_unfold Let_def py_div_def actual_factor_def spend_factor_def
      uniform_def py_round2_def round_half_even_def)

subsection \<open>The fact log\<close>

lemma generate_progress_bounds:
  assumes rng: "\<forall>k. 0 \<le> rng k \<and> rng k \<le> 1"
  shows "\<exists>recs. generate_progress date_str rng = Inr recs
     \<and> (\<forall>p\<in>set recs. 0 \<le> planned_pct p \<and> planned_pct p \<le> 100
            \<and> 0 \<le> actual_pct p \<and> actual_pct p \<le> 100 \<and> 0 \<le> budget_spent p)"
proof -
  from generate_progress_segments[OF rng, of date_str] obtain recs where
    gen: "generate_progress date_str rng = Inr recs"
    and ids: "\<forall>p\<in>set recs. p_ws_id p \<in> ws_id ` set workstreams_data"
    and segs: "\<forall>w\<in>set workstreams_data. \<exists>s0 s1.
                week_loop date_str rng (ws_id w) (budget w) [0..<NUM_WEEKS] (reset s0) = Inr s1
                \<and> progress_records s1
                    = progress_records (reset s0) @ filter (\<lambda>p. p_ws_id p = ws_id w) recs"
    by blast
  have "0 \<le> planned_pct p \<and> planned_pct p \<le> 100
            \<and> 0 \<le> actual_pct p \<and> actual_pct p \<le> 100 \<and> 0 \<le> budget_spent p"
    if p: "p \<in> set recs" for p
  proof -
    from ids p obtain w where w: "w \<in> set workstreams_data" "p_ws_id p = ws_id w" by auto
    from segs w obtain s0 s1 where
      run: "week_loop date_str rng (ws_id w) (budget w) [0..<NUM_WEEKS] (reset s0) = Inr s1"
      and recs: "progress_records s1
                    = progress_records (reset s0) @ filter (\<lambda>p. p_ws_id p = ws_id w) recs"
      by blast
    have bud: "0 \<le> budget w" using w workstreams_data_facts(1) by blast
    have "p \<in> set (filter (\<lambda>p. p_ws_id p = ws_id w) recs)" using p w by simp
    then show ?thesis using segment_props(2)[OF bud rng run recs] by blast
  qed
  then show ?thesis using gen by blast
qed

lemma randint_lower: "a \<le> randint bits pos a b"
  by (simp add: randint_def)

lemma choice_mem: "xs \<noteq> [] \<Longrightarrow> choice bits pos xs \<in> set xs"
  by (simp add: choice_def)

lemma cr_step_ok:
  assumes "\<forall>c\<in>set (cr_records st). cr_ok c"
  shows "\<forall>c\<in>set (cr_records (cr_step date_str bits ws st)). cr_ok c"
proof -
  have "choice bits (bits_pos st + 2) [''Approved'', ''Approved'', ''Rejected'', ''Pending'']
          \<in> set [''Approved'', ''Approved'', ''Rejected'', ''Pending'']"
    by (rule choice_mem) simp
  then have "choice bits (bits_pos st + 2) [''Approved'', ''Approved'', ''Rejected'', ''Pending'']
          \<in> {''Pending'', ''Approved'', ''Rejected''}"
    by auto
  then show ?thesis
    using assms by (auto simp: cr_step_def Let_def cr_ok_def)
qed

lemma cr_steps_ok:
  assumes "\<forall>c\<in>set (cr_records st). cr_ok c"
  shows "\<forall>c\<in>set (cr_records ((cr_step date_str bits ws ^^ n) st)). cr_ok c"
proof (induction n)
  case 0
  show ?case using assms by simp
next
  case (Suc n)
  show ?case
    unfolding funpow.simps comp_def by (rule cr_step_ok) (rule Suc)
qed

lemma cr_ws_ok:
  assumes "\<forall>c\<in>set (cr_records st). cr_ok c"
  shows "\<forall>c\<in>set (cr_records (cr_ws date_str bits w st)). cr_ok c"
proof -
  have "\<forall>c\<in>set (cr_records (st \<lparr> bits_pos := bits_pos st + 1 \<rparr>)). cr_ok c"
    using assms by simp
  then show ?thesis
    unfolding cr_ws_def Let_def by (rule cr_steps_ok)
qed

lemma fold_cr_ws_ok:
  "\<forall>c\<in>set (cr_records st). cr_ok c \<Longrightarrow>
   \<forall>c\<in>set (cr_records (fold (cr_ws date_str bits) wsl st)). cr_ok c"
proof (induction wsl arbitrary: st)
  case Nil
  then show ?case by simp
next
  case (Cons w wsl)
  have "\<forall>c\<in>set (cr_records (cr_ws date_str bits w st)). cr_ok c"
    using Cons.prems by (rule cr_ws_ok)
  from Cons.IH[OF this] show ?case by simp
qed

lemma generate_crs_ok: "\<forall>c\<in>set (generate_crs date_str bits). cr_ok c"
proof -
  have "\<forall>c\<in>set (cr_records \<lparr> bits_pos = 0, cr_counter = 1000, cr_records = [] \<rparr>). cr_ok c"
    by simp
  then show ?thesis unfolding generate_crs_def by (rule fold_cr_ws_ok)
qed

lemma executemany_insert_progress:
  "progress (executemany insert_progress rows d) = progress d @ rows
   \<and> change_requests (executemany insert_progress rows d) = change_requests d"
  unfolding executemany_def
  by (induction rows arbitrary: d) (simp_all add: insert_progress_def)

lemma executemany_workstreams:
  "progress (executemany insert_or_replace_workstream rows d) = progress d
   \<and> change_requests (executemany insert_or_replace_workstream rows d) = change_requests d"
  unfolding executemany_def
  by (induction rows arbitrary: d) (simp_all add: insert_or_replace_workstream_def)

lemma executemany_change_requests:
  "progress (executemany insert_or_replace_change_request rows d) = progress d
   \<and> set (change_requests (executemany insert_or_replace_change_request rows d))
     \<subseteq> set (change_requests d) \<union> set rows"
  unfolding executemany_def
proof (induction rows arbitrary: d)
  case Nil
  show ?case by simp
next
  case (Cons c rows)
  let ?d1 = "insert_or_replace_change_request c d"
  have p: "progress ?d1 = progress d"
    and s: "set (change_requests ?d1) \<subseteq> set (change_requests d) \<union> {c}"
    by (auto simp: insert_or_replace_change_request_def)
  have "set (change_requests (fold insert_or_replace_change_request rows ?d1))
          \<subseteq> set (change_requests ?d1) \<union> set rows"
    using Cons.IH[of ?d1] by blast
  then have "set (change_requests (fold insert_or_replace_change_request rows ?d1))
          \<subseteq> set (change_requests d) \<union> set (c # rows)"
    using s by auto
  moreover have "progress (fold insert_or_replace_change_request rows ?d1) = progress d"
    using Cons.IH[of ?d1] p by simp
  ultimately show ?case by simp
qed

text \<open>
  C9, as stated, fails: a snapshot with \<open>planned_pct\<close> 150, \<open>actual_pct\<close> -10 and a
  negative spend, and a change request with a negative cost and the status Escalated, are
  entered into the tables without any error.
\<close>

theorem C9_invalid_rows_accepted:
  "progress (insert_progress bad_snapshot empty_db) = [bad_snapshot]
   \<and> planned_pct bad_snapshot = 150 \<and> actual_pct bad_snapshot = - 10
   \<and> budget_spent bad_snapshot = - 1
   \<and> change_requests (insert_or_replace_change_request bad_change_request empty_db)
       = [bad_change_request]
   \<and> cost_impact bad_change_request = - 5000
   \<and> status bad_change_request = ''Escalated''"
  by (simp add: insert_progress_def insert_or_replace_change_request_def empty_db_def
      bad_snapshot_def bad_change_request_def)

text \<open>
  C9, amended. Entering a snapshot or a change request performs no validation: the row is
  stored exactly as given, never rejected and never clamped. The ranges hold for the rows
  the generator itself enters into an empty store: its snapshots have both percentages in
  \<open>[0, 100]\<close> and a non-negative spend, and its change requests have a non-negative cost
  and a status among Pending, Approved and Rejected.
\<close>

theorem C9_rows_stored_unvalidated:
  assumes rng: "\<forall>k. 0 \<le> rng k \<and> rng k \<le> 1"
  shows "progress (insert_progress p d) = progress d @ [p]
     \<and> last (change_requests (insert_or_replace_change_request c d)) = c
     \<and> (\<exists>d'. generate_data date_str rng bits empty_db = Inr d'
           \<and> (\<forall>p\<in>set (progress d'). 0 \<le> planned_pct p \<and> planned_pct p \<le> 100
                  \<and> 0 \<le> actual_pct p \<and> actual_pct p \<le> 100 \<and> 0 \<le> budget_spent p)
           \<and> (\<forall>c\<in>set (change_requests d'). 0 \<le> cost_impact c
                  \<and> status c \<in> {''Pending'', ''Approved'', ''Rejected''}))"
proof -
  from generate_progress_bounds[OF rng, of date_str] obtain recs where
    gen: "generate_progress date_str rng = Inr recs"
    and bnd: "\<forall>p\<in>set recs. 0 \<le> planned_pct p \<and> planned_pct p \<le> 100
            \<and> 0 \<le> actual_pct p \<and> actual_pct p \<le> 100 \<and> 0 \<le> budget_spent p"
    by blast
  let ?d1 = "executemany insert_or_replace_workstream workstreams_data empty_db"
  let ?d2 = "executemany insert_progress recs ?d1"
  let ?d3 = "executemany insert_or_replace_change_request (generate_crs date_str bits) ?d2"
  have g: "generate_data date_str rng bits empty_db = Inr ?d3"
    by (simp add: generate_data_def gen)
  have p1: "progress ?d1 = []" and c1: "change_requests ?d1 = []"
    using executemany_workstreams[of workstreams_data empty_db] by (simp_all add: empty_db_def)
  have p2: "progress ?d2 = recs" and c2: "change_requests ?d2 = []"
    using executemany_insert_progress[of recs ?d1] p1 c1 by simp_all
  have p3: "progress ?d3 = recs"
    using executemany_change_requests[of "generate_crs date_str bits" ?d2] p2 by simp
  have c3: "set (change_requests ?d3) \<subseteq> set (generate_crs date_str bits)"
    using executemany_change_requests[of "generate_crs date_str bits" ?d2] c2 by simp
  have crs: "\<forall>c\<in>set (change_requests ?d3). 0 \<le> cost_impact c
                  \<and> status c \<in> {''Pending'', ''Approved'', ''Rejected''}"
    using c3 generate_crs_ok[of date_str bits] unfolding cr_ok_def by blast
  have a: "progress (insert_progress p d) = progress d @ [p]"
    by (simp add: insert_progress_def)
  have b: "last (change_requests (insert_or_replace_change_request c d)) = c"
    by (simp add: insert_or_replace_change_request_def)
  show ?thesis using a b g p3 bnd crs by (intro conjI exI[of _ ?d3]) simp_all
qed

theorem C9_rows_stored_unvalidated_witness:
  "progress (insert_progress bad_snapshot example_db) = progress example_db @ [bad_snapshot]
     \<and> last (change_requests (insert_or_replace_change_request bad_change_request example_db))
          = bad_change_request
     \<and> (\<exists>d'. generate_data demo_date_str demo_rng demo_bits empty_db = Inr d'
           \<and> (\<forall>p\<in>set (progress d'). 0 \<le> planned_pct p \<and> planned_pct p \<le> 100
                  \<and> 0 \<le> actual_pct p \<and> actual_pct p \<le> 100 \<and> 0 \<le> budget_spent p)
           \<and> (\<forall>c\<in>set (change_requests d'). 0 \<le> cost_impact c
                  \<and> status c \<in> {''Pending'', ''Approved'', ''Rejected''}))"
proof -
  have "\<forall>k. 0 \<le> demo_rng k \<and> demo_rng k \<le> 1" by (simp add: demo_rng_def)
  then show ?thesis by (rule C9_rows_stored_unvalidated)
qed

end
